theory Spec2Isabelle
  imports
    Main
    "HOL-Library.Product_Lexorder"
    "HOL-Library.List_Lexorder"
    "HOL-Library.Char_ord"
    "HOL-Library.Multiset"
    "HOL-Library.Word"
begin


section \<open>Token estimation (lib/token-utils)\<close>

text \<open>
  JavaScript strings are modelled as \<^typ>\<open>string\<close>: one \<^typ>\<open>char\<close> per code unit, so
  \<^const>\<open>length\<close> is \<^verbatim>\<open>text.length\<close> (code units below 256 only).  Token counts are
  JavaScript numbers that only ever hold integers far below \<open>2^53\<close>; they are modelled as
  \<^typ>\<open>int\<close>, so that the subtraction in the eviction loop does not truncate.

  \<^verbatim>\<open>CHARS_PER_TOKEN = 3.5\<close>, and \<^verbatim>\<open>Math.ceil(text.length / 3.5)\<close> is the ceiling of
  \<open>2 * length / 7\<close>: the quotient of two integers below \<open>2^53\<close> is rounded correctly, and a
  quotient that is not an integer is at least \<open>1/7\<close> away from one.
\<close>

definition estimateTokens :: "string \<Rightarrow> int" where
  "estimateTokens text =
     (if text = [] then 0 else (2 * int (length text) + 6) div 7)"

definition estimateMessageTokens :: "string \<Rightarrow> int" where
  "estimateMessageTokens content = estimateTokens content + 4"

definition ACTIVE_MEMORY :: int where
  "ACTIVE_MEMORY = 800000"

definition RESPONSE_BUFFER :: int where
  "RESPONSE_BUFFER = 8000"

text \<open>
  \<^verbatim>\<open>TOKEN_LIMITS.ACTIVE_MEMORY * 0.9\<close> is evaluated in double precision: the product
  of 800000 and the double nearest to 0.9 rounds to 720000 exactly.
\<close>

definition EVICTION_TARGET :: int where
  "EVICTION_TARGET = 720000"

section \<open>Active memory window (services/memory-store)\<close>

datatype role = User | Assistant | System

record ConversationMessage =
  msg_id :: string
  msg_role :: role
  content :: string
  createdAt :: nat
  tokenCount :: int
  sessionId :: string

text \<open>
  \<^verbatim>\<open>createdAt\<close> is an ISO-8601 string of fixed width; its string order is the order of the
  instants, which are modelled as \<^typ>\<open>nat\<close> (milliseconds).  The field \<^verbatim>\<open>updatedAt\<close> of
  the metadata record is written and never read; it is left out.
\<close>

record MemoryMeta =
  tokenTotal :: int
  messageCount :: nat
  oldestMessageId :: "string option"
  newestMessageId :: "string option"

text \<open>
  The IndexedDB database: the object store \<^verbatim>\<open>messages\<close> (primary key \<^verbatim>\<open>id\<close>) and the
  record \<^verbatim>\<open>"main"\<close> of the store \<^verbatim>\<open>meta\<close>, absent until the first \<^verbatim>\<open>updateMeta\<close>.
\<close>

record memory_db =
  messages :: "ConversationMessage list"
  meta_main :: "MemoryMeta option"

definition empty_db :: memory_db where
  "empty_db = \<lparr>messages = [], meta_main = None\<rparr>"

datatype idb_error = ConstraintError

text \<open>An index lists records by index key, then by primary key.\<close>

definition byCreatedAt :: "memory_db \<Rightarrow> ConversationMessage list" where
  "byCreatedAt db = sort_key (\<lambda>m. (createdAt m, msg_id m)) (messages db)"

definition bySessionId :: "memory_db \<Rightarrow> string \<Rightarrow> ConversationMessage list" where
  "bySessionId db s = sort_key msg_id (filter (\<lambda>m. sessionId m = s) (messages db))"

definition getMeta :: "memory_db \<Rightarrow> MemoryMeta" where
  "getMeta db =
     (case meta_main db of
        Some m \<Rightarrow> m
      | None \<Rightarrow> \<lparr>tokenTotal = 0, messageCount = 0,
                 oldestMessageId = None, newestMessageId = None\<rparr>)"

definition db_delete :: "memory_db \<Rightarrow> string \<Rightarrow> memory_db" where
  "db_delete db k = db\<lparr>messages := filter (\<lambda>m. msg_id m \<noteq> k) (messages db)\<rparr>"

definition db_add :: "memory_db \<Rightarrow> ConversationMessage \<Rightarrow> idb_error + memory_db" where
  "db_add db m =
     (if msg_id m \<in> msg_id ` set (messages db) then Inl ConstraintError
      else Inr (db\<lparr>messages := messages db @ [m]\<rparr>))"

text \<open>
  The eviction loop of \<^verbatim>\<open>addMessage\<close>: \<^verbatim>\<open>for (const oldMsg of allMessages)\<close>, leaving at
  the first message at which the running total is at or below 90 percent of the ceiling.
  It returns the database, the evicted messages and the running total.
\<close>

fun evict_loop ::
  "ConversationMessage list \<Rightarrow> memory_db \<Rightarrow> ConversationMessage list \<Rightarrow> int
     \<Rightarrow> memory_db \<times> ConversationMessage list \<times> int" where
  "evict_loop [] db evicted newTokenTotal = (db, evicted, newTokenTotal)"
| "evict_loop (oldMsg # rest) db evicted newTokenTotal =
     (if newTokenTotal \<le> EVICTION_TARGET then (db, evicted, newTokenTotal)
      else evict_loop rest (db_delete db (msg_id oldMsg)) (evicted @ [oldMsg])
             (newTokenTotal - tokenCount oldMsg))"

definition id_of_first :: "ConversationMessage list \<Rightarrow> string option" where
  "id_of_first xs = (case xs of [] \<Rightarrow> None | m # _ \<Rightarrow> if msg_id m = [] then None else Some (msg_id m))"

definition id_of_last :: "ConversationMessage list \<Rightarrow> string option" where
  "id_of_last xs = id_of_first (rev xs)"

text \<open>
  \<^verbatim>\<open>addMessage(role, content, sessionId)\<close>.  The two values the function draws from its
  environment, \<^verbatim>\<open>uuidv4()\<close> and \<^verbatim>\<open>new Date()\<close>, are arguments.  \<^verbatim>\<open>db.add\<close> rejects a
  key that is already stored; the deletions of the eviction loop have happened by then and
  the metadata has not been written.
\<close>

definition addMessage ::
  "memory_db \<Rightarrow> role \<Rightarrow> string \<Rightarrow> string \<Rightarrow> string \<Rightarrow> nat
     \<Rightarrow> memory_db \<times> (idb_error + ConversationMessage \<times> ConversationMessage list)" where
  "addMessage db r c sid uuid now =
     (let meta = getMeta db;
          message = \<lparr>msg_id = uuid, msg_role = r, content = c, createdAt = now,
                     tokenCount = estimateMessageTokens c, sessionId = sid\<rparr>;
          newTokenTotal = tokenTotal meta + tokenCount message;
          (db1, evicted, total1) =
            (if newTokenTotal > ACTIVE_MEMORY
             then evict_loop (byCreatedAt db) db [] newTokenTotal
             else (db, [], newTokenTotal))
      in case db_add db1 message of
           Inl e \<Rightarrow> (db1, Inl e)
         | Inr db2 \<Rightarrow>
             (let allMessages = byCreatedAt db2;
                  db3 = db2\<lparr>meta_main := Some ((getMeta db2)
                          \<lparr>tokenTotal := total1,
                           messageCount := length allMessages,
                           oldestMessageId := id_of_first allMessages,
                           newestMessageId := id_of_last allMessages\<rparr>)\<rparr>
              in (db3, Inr (message, evicted))))"

text \<open>\<^verbatim>\<open>getMessages(sessionId?)\<close>: an absent or empty session id is falsy and lists everything.\<close>

definition getMessages :: "memory_db \<Rightarrow> string option \<Rightarrow> ConversationMessage list" where
  "getMessages db sid =
     (case sid of
        Some s \<Rightarrow> if s \<noteq> [] then bySessionId db s else byCreatedAt db
      | None \<Rightarrow> byCreatedAt db)"

text \<open>
  The loop of \<^verbatim>\<open>getRecentMessages\<close> walks the listing from its last element; the first
  argument is the part of the listing not yet visited, newest first.
\<close>

fun recent_loop ::
  "ConversationMessage list \<Rightarrow> ConversationMessage list \<Rightarrow> int \<Rightarrow> int
     \<Rightarrow> ConversationMessage list" where
  "recent_loop [] result tc maxTokens = result"
| "recent_loop (m # older) result tc maxTokens =
     (if tc + tokenCount m > maxTokens then result
      else recent_loop older (m # result) (tc + tokenCount m) maxTokens)"

definition getRecentMessages ::
  "memory_db \<Rightarrow> int \<Rightarrow> string option \<Rightarrow> ConversationMessage list" where
  "getRecentMessages db maxTokens sid =
     recent_loop (rev (getMessages db sid)) [] 0 maxTokens"

text \<open>A sequence of \<^verbatim>\<open>addMessage\<close> calls, each awaited before the next.\<close>

record add_call =
  call_role :: role
  call_content :: string
  call_session :: string
  call_uuid :: string
  call_now :: nat

definition do_call ::
  "memory_db \<Rightarrow> add_call
     \<Rightarrow> memory_db \<times> (idb_error + ConversationMessage \<times> ConversationMessage list)" where
  "do_call db c =
     addMessage db (call_role c) (call_content c) (call_session c) (call_uuid c) (call_now c)"

fun run_calls :: "memory_db \<Rightarrow> add_call list \<Rightarrow> memory_db" where
  "run_calls db [] = db"
| "run_calls db (c # cs) = run_calls (fst (do_call db c)) cs"

text \<open>
  The state invariant of the window: message ids are unique (they are the primary key),
  and the recorded total is the sum of the stored token counts.
\<close>

definition consistent :: "memory_db \<Rightarrow> bool" where
  "consistent db \<longleftrightarrow>
     distinct (map msg_id (messages db)) \<and>
     tokenTotal (getMeta db) = sum_list (map tokenCount (messages db))"

text \<open>The list of evicted messages of a call, if the call returned.\<close>

definition evicted_of ::
  "memory_db \<times> (idb_error + ConversationMessage \<times> ConversationMessage list)
     \<Rightarrow> ConversationMessage list option" where
  "evicted_of res = (case snd res of Inl e \<Rightarrow> None | Inr (m, ev) \<Rightarrow> Some ev)"

subsection \<open>Test data\<close>

text \<open>Contents of a given length, and calls with such contents.\<close>

definition filler :: "nat \<Rightarrow> string" where
  "filler n = replicate n CHR ''x''"

definition call_b :: add_call where
  "call_b = \<lparr>call_role = User, call_content = filler 2449986, call_session = ''b'',
             call_uuid = ''u1'', call_now = 1\<rparr>"

definition call_a :: add_call where
  "call_a = \<lparr>call_role = User, call_content = filler 350000, call_session = ''a'',
             call_uuid = ''u2'', call_now = 2\<rparr>"

definition call_huge :: add_call where
  "call_huge = \<lparr>call_role = User, call_content = filler 2800000, call_session = ''a'',
             call_uuid = ''u3'', call_now = 3\<rparr>"

definition call_tiny :: add_call where
  "call_tiny = \<lparr>call_role = User, call_content = filler 7, call_session = ''a'',
             call_uuid = ''u4'', call_now = 4\<rparr>"

definition call_big :: add_call where
  "call_big = \<lparr>call_role = Assistant, call_content = filler 2799986, call_session = ''a'',
             call_uuid = ''u5'', call_now = 5\<rparr>"

definition msg_tiny :: ConversationMessage where
  "msg_tiny = \<lparr>msg_id = ''u4'', msg_role = User, content = filler 7, createdAt = 4,
             tokenCount = 6, sessionId = ''a''\<rparr>"

definition msg_big :: ConversationMessage where
  "msg_big = \<lparr>msg_id = ''u5'', msg_role = Assistant, content = filler 2799986, createdAt = 5,
             tokenCount = 800000, sessionId = ''a''\<rparr>"

definition msg_b :: ConversationMessage where
  "msg_b = \<lparr>msg_id = ''u1'', msg_role = User, content = filler 2449986, createdAt = 1,
             tokenCount = 700000, sessionId = ''b''\<rparr>"

definition msg_a :: ConversationMessage where
  "msg_a = \<lparr>msg_id = ''u2'', msg_role = User, content = filler 350000, createdAt = 2,
             tokenCount = 100004, sessionId = ''a''\<rparr>"

section \<open>Text segmenter of the training module\<close>

text \<open>
  The character classes of the regular expressions, on code units below 256: \<^verbatim>\<open>\s\<close> (also
  the set removed by \<^verbatim>\<open>trim\<close>), \<^verbatim>\<open>[\t ]\<close>, the line terminators that \<^verbatim>\<open>.\<close> does not
  match, and \<^verbatim>\<open>[.!?]\<close>.
\<close>

definition is_space :: "char \<Rightarrow> bool" where
  "is_space c \<longleftrightarrow> c \<in> {CHR 0x09, CHR 0x0A, CHR 0x0B, CHR 0x0C, CHR 0x0D, CHR 0x20, CHR 0xA0}"

definition is_blank :: "char \<Rightarrow> bool" where
  "is_blank c \<longleftrightarrow> c = CHR 0x09 \<or> c = CHR 0x20"

definition is_line_terminator :: "char \<Rightarrow> bool" where
  "is_line_terminator c \<longleftrightarrow> c = CHR 0x0A \<or> c = CHR 0x0D"

definition is_punct :: "char \<Rightarrow> bool" where
  "is_punct c \<longleftrightarrow> c = CHR ''.'' \<or> c = CHR ''!'' \<or> c = CHR ''?''"

definition trim :: "string \<Rightarrow> string" where
  "trim s = rev (dropWhile is_space (rev (dropWhile is_space s)))"

text \<open>\<^verbatim>\<open>s.slice(a, b)\<close> for indices that are not negative.\<close>

definition slice :: "string \<Rightarrow> nat \<Rightarrow> nat \<Rightarrow> string" where
  "slice s a b = take (b - a) (drop a s)"

text \<open>\<^verbatim>\<open>.replace(/\r\n/g, "\n")\<close>\<close>

fun replace_crlf :: "string \<Rightarrow> string" where
  "replace_crlf (c # d # cs) =
     (if c = CHR 0x0D \<and> d = CHR 0x0A then CHR 0x0A # replace_crlf cs
      else c # replace_crlf (d # cs))"
| "replace_crlf cs = cs"

text \<open>
  \<^verbatim>\<open>.replace(/[\t ]+/g, " ")\<close> and \<^verbatim>\<open>.replace(/\s+/g, " ")\<close>: every maximal run of the
  class becomes one space.  The flag says whether the previous character was in the class.
\<close>

fun collapse_runs :: "(char \<Rightarrow> bool) \<Rightarrow> bool \<Rightarrow> string \<Rightarrow> string" where
  "collapse_runs P in_run [] = []"
| "collapse_runs P in_run (c # cs) =
     (if P c then (if in_run then collapse_runs P True cs
                   else CHR 0x20 # collapse_runs P True cs)
      else c # collapse_runs P False cs)"

text \<open>
  \<^verbatim>\<open>.replace(/\n{3,}/g, "\n\n")\<close>: of a run of line feeds the first two are kept.  The
  counter is the number of line feeds that immediately precede.
\<close>

fun collapse_newlines :: "nat \<Rightarrow> string \<Rightarrow> string" where
  "collapse_newlines k [] = []"
| "collapse_newlines k (c # cs) =
     (if c = CHR 0x0A then (if k \<ge> 2 then collapse_newlines k cs
                            else c # collapse_newlines (Suc k) cs)
      else c # collapse_newlines 0 cs)"

definition normalizeText :: "string \<Rightarrow> string" where
  "normalizeText text =
     trim (collapse_newlines 0 (collapse_runs is_blank False (replace_crlf text)))"

text \<open>
  \<^verbatim>\<open>toLowerCase\<close> on code units below 256: the letters A to Z and the capital letters of
  Latin-1 (U+00C0 to U+00DE without the multiplication sign U+00D7) move up by 32.
\<close>

definition to_lower :: "char \<Rightarrow> char" where
  "to_lower c =
     (let n = (of_char c :: nat)
      in if (65 \<le> n \<and> n \<le> 90) \<or> (192 \<le> n \<and> n \<le> 222 \<and> n \<noteq> 215)
         then char_of (n + 32) else c)"

definition normalizeForDedup :: "string \<Rightarrow> string" where
  "normalizeForDedup text = map to_lower (trim (collapse_runs is_space False text))"

definition SHORT_TEXT_THRESHOLD :: nat where "SHORT_TEXT_THRESHOLD = 500"
definition SHORT_CHUNK_SIZE :: nat where "SHORT_CHUNK_SIZE = 400"
definition SHORT_OVERLAP :: nat where "SHORT_OVERLAP = 60"
definition DEFAULT_CHUNK_SIZE :: nat where "DEFAULT_CHUNK_SIZE = 1200"
definition DEFAULT_OVERLAP :: nat where "DEFAULT_OVERLAP = 200"
definition MAX_CHUNKS :: nat where "MAX_CHUNKS = 500"
definition DEDUP_MIN_LENGTH :: nat where "DEDUP_MIN_LENGTH = 80"

text \<open>\<^verbatim>\<open>getChunkConfig\<close> returns the pair \<^verbatim>\<open>(maxLen, overlap)\<close>.\<close>

definition getChunkConfig :: "string \<Rightarrow> nat \<times> nat" where
  "getChunkConfig text =
     (if length text \<le> SHORT_TEXT_THRESHOLD
      then (min SHORT_CHUNK_SIZE DEFAULT_CHUNK_SIZE, min SHORT_OVERLAP DEFAULT_OVERLAP)
      else (DEFAULT_CHUNK_SIZE, DEFAULT_OVERLAP))"

text \<open>
  The regular expression of \<^verbatim>\<open>findSentenceBoundary\<close> is
  \<^verbatim>\<open>/([.!?]|\n)\s(?!.*[.!?]|\n)/\<close>.  Its negative lookahead has two alternatives:
  \<^verbatim>\<open>.*[.!?]\<close>, a punctuation mark later on the same line, and \<^verbatim>\<open>\n\<close>, a line feed next.
\<close>

fun punct_on_line :: "string \<Rightarrow> bool" where
  "punct_on_line [] = False"
| "punct_on_line (c # cs) =
     (if is_punct c then True
      else if is_line_terminator c then False
      else punct_on_line cs)"

definition lookahead_fails :: "string \<Rightarrow> bool" where
  "lookahead_fails rest \<longleftrightarrow>
     punct_on_line rest \<or> (case rest of [] \<Rightarrow> False | c # _ \<Rightarrow> c = CHR 0x0A)"

text \<open>\<^verbatim>\<open>window.match(...)\<close>: the leftmost match, as the matched text \<^verbatim>\<open>match[0]\<close>.\<close>

fun first_match :: "string \<Rightarrow> string option" where
  "first_match (a # b # rest) =
     (if (is_punct a \<or> a = CHR 0x0A) \<and> is_space b \<and> \<not> lookahead_fails rest
      then Some [a, b]
      else first_match (b # rest))"
| "first_match cs = None"

text \<open>
  \<^verbatim>\<open>window.lastIndexOf(pat)\<close>, scanning from the left with the position and the last
  occurrence seen so far.
\<close>

fun last_index_from :: "string \<Rightarrow> string \<Rightarrow> nat \<Rightarrow> nat option \<Rightarrow> nat option" where
  "last_index_from [] pat i acc = (if pat = [] then Some i else acc)"
| "last_index_from (c # cs) pat i acc =
     last_index_from cs pat (Suc i)
       (if take (length pat) (c # cs) = pat then Some i else acc)"

definition lastIndexOf :: "string \<Rightarrow> string \<Rightarrow> nat option" where
  "lastIndexOf w pat = last_index_from w pat 0 None"

definition findSentenceBoundary :: "string \<Rightarrow> nat \<Rightarrow> nat \<Rightarrow> nat" where
  "findSentenceBoundary text start end =
     (let windowStart = max start (end - 120);
          window = slice text windowStart end
      in case first_match window of
           None \<Rightarrow> end
         | Some m \<Rightarrow>
             (case lastIndexOf window m of
                None \<Rightarrow> end
              | Some idx \<Rightarrow>
                  (let boundary = windowStart + idx + length m
                   in if boundary > start + 100 then boundary else end)))"

text \<open>
  The body of the loop of \<^verbatim>\<open>chunkText\<close> that accepts a slice: the chunks and the set
  \<^verbatim>\<open>seen\<close> before, and after.
\<close>

definition accept_slice ::
  "string \<Rightarrow> string list \<times> string list \<Rightarrow> string list \<times> string list" where
  "accept_slice sl st =
     (case st of (chunks, seen) \<Rightarrow>
        if sl \<noteq> [] then
          (if length sl \<ge> DEDUP_MIN_LENGTH then
             (let key = normalizeForDedup sl
              in if key \<notin> set seen then (chunks @ [sl], key # seen) else (chunks, seen))
           else (chunks @ [sl], seen))
        else (chunks, seen))"

text \<open>
  The \<^verbatim>\<open>while\<close> loop of \<^verbatim>\<open>chunkText\<close>.  It need not end (with \<^verbatim>\<open>maxLen\<close> at most
  \<^verbatim>\<open>overlap\<close> the start position does not advance), so it runs on fuel: \<open>None\<close> says that
  the fuel ran out.
\<close>

primrec chunk_loop ::
  "nat \<Rightarrow> string \<Rightarrow> nat \<Rightarrow> nat \<Rightarrow> nat \<Rightarrow> string list \<times> string list
     \<Rightarrow> string list option" where
  "chunk_loop 0 clean maxLen overlap start st = None"
| "chunk_loop (Suc fuel) clean maxLen overlap start st =
     (if start < length clean \<and> length (fst st) < MAX_CHUNKS then
        (let end0 = min (start + maxLen) (length clean);
             end = (if end0 < length clean then findSentenceBoundary clean start end0
                    else end0);
             st' = accept_slice (trim (slice clean start end)) st
         in if end = length clean then Some (fst st')
            else chunk_loop fuel clean maxLen overlap (max 0 (end - overlap)) st')
      else Some (fst st))"

definition chunkText :: "nat \<Rightarrow> string \<Rightarrow> nat \<Rightarrow> nat \<Rightarrow> string list option" where
  "chunkText fuel text maxLen overlap =
     (let clean = normalizeText text
      in if clean = [] then Some [] else chunk_loop fuel clean maxLen overlap 0 ([], []))"

text \<open>
  The invariant of the loop: the long chunks emitted so far have pairwise different keys,
  and all their keys are in \<^verbatim>\<open>seen\<close>.
\<close>

definition dedup_inv :: "string list \<times> string list \<Rightarrow> bool" where
  "dedup_inv st \<longleftrightarrow>
     distinct (map normalizeForDedup (filter (\<lambda>c. length c \<ge> DEDUP_MIN_LENGTH) (fst st))) \<and>
     normalizeForDedup ` {c \<in> set (fst st). length c \<ge> DEDUP_MIN_LENGTH} \<subseteq> set (snd st)"

subsection \<open>Test data\<close>



section \<open>Vector worker: embeddings, structured table, similarity index, mirror\<close>

subsection \<open>Embedding values\<close>

text \<open>
  A \<^verbatim>\<open>Float32Array\<close> is the list of its 32-bit components, an \<^verbatim>\<open>ArrayBuffer\<close> and a
  \<^verbatim>\<open>Uint8Array\<close> the list of their bytes.  The byte view of a \<^verbatim>\<open>Float32Array\<close>
  (\<^verbatim>\<open>new Uint8Array(e.buffer, e.byteOffset, e.byteLength)\<close>) has four bytes per component.
\<close>

type_synonym byte = "8 word"
type_synonym float32 = "32 word"

definition float32_bytes :: "float32 \<Rightarrow> byte list" where
  "float32_bytes w = [ucast w, ucast (drop_bit 8 w), ucast (drop_bit 16 w), ucast (drop_bit 24 w)]"

definition f32_view :: "float32 list \<Rightarrow> byte list" where
  "f32_view ws = concat (map float32_bytes ws)"

text \<open>
  The values \<^verbatim>\<open>toVecBlobFromEmbedding\<close> distinguishes.  For an object that is none of the
  three array kinds and has a numeric \<^verbatim>\<open>byteLength\<close>, the constructor carries what
  \<^verbatim>\<open>new Uint8Array(embedding)\<close> yields: \<open>None\<close> when it throws.
\<close>

datatype js_embedding =
    Falsy
  | Float32Array "float32 list"
  | ArrayBuffer "byte list"
  | Uint8Array "byte list"
  | WithByteLength "byte list option"
  | OtherObject


definition expectedBytes :: nat where
  "expectedBytes = 768 * 4"


fun toVecBlobFromEmbedding :: "js_embedding \<Rightarrow> byte list option" where
  "toVecBlobFromEmbedding Falsy = None"
| "toVecBlobFromEmbedding (Float32Array ws) =
     (if 4 * length ws \<noteq> expectedBytes then None else Some (f32_view ws))"
| "toVecBlobFromEmbedding (ArrayBuffer bs) =
     (if length bs \<noteq> expectedBytes then None else Some bs)"
| "toVecBlobFromEmbedding (Uint8Array bs) =
     (if length bs \<noteq> expectedBytes then None else Some bs)"
| "toVecBlobFromEmbedding (WithByteLength conv) =
     (case conv of
        None \<Rightarrow> None
      | Some bs \<Rightarrow> if length bs \<noteq> expectedBytes then None else Some bs)"
| "toVecBlobFromEmbedding OtherObject = None"

subsection \<open>Worker state\<close>

text \<open>A row of the table \<^verbatim>\<open>training_chunks\<close>; a \<^verbatim>\<open>NULL\<close> embedding is \<open>None\<close>.\<close>

record chunk_row =
  rowid :: nat
  userId :: string
  sourceName :: string
  chunkIndex :: nat
  row_text :: string
  embedding :: "byte list option"
  status :: string

text \<open>A record of the IndexedDB store \<^verbatim>\<open>chunks\<close> (key path \<^verbatim>\<open>key\<close>).\<close>

record idb_chunk =
  idb_key :: string
  idb_id :: nat
  idb_userId :: string
  idb_sourceName :: string
  idb_chunkIndex :: nat
  idb_text :: string
  idb_embedding :: js_embedding
  idb_status :: string

text \<open>
  The state the worker keeps: the table \<^verbatim>\<open>training_chunks\<close> with the counter of
  \<^verbatim>\<open>AUTOINCREMENT\<close>, the virtual table \<^verbatim>\<open>vectors\<close> of the similarity index (absent when it
  could not be created or was dropped), the module variables \<^verbatim>\<open>vec0Available\<close> and
  \<^verbatim>\<open>vec0DisabledReason\<close>, the IndexedDB mirror (\<open>None\<close> when \<^verbatim>\<open>self.indexedDB\<close> is absent)
  and whether \<^verbatim>\<open>rehydratePromise\<close> is set.
\<close>

record worker_db =
  training_chunks :: "chunk_row list"
  seq :: nat
  vectors :: "(nat \<times> byte list) list"
  vectors_exists :: bool
  vec0Available :: bool
  vec0DisabledReason :: "string option"
  idb :: "idb_chunk list option"
  rehydrated :: bool

definition fresh_worker_db :: worker_db where
  "fresh_worker_db =
     \<lparr>training_chunks = [], seq = 0, vectors = [], vectors_exists = True,
      vec0Available = True, vec0DisabledReason = None, idb = Some [], rehydrated = False\<rparr>"

definition same_key :: "string \<Rightarrow> string \<Rightarrow> nat \<Rightarrow> chunk_row \<Rightarrow> bool" where
  "same_key u s i r \<longleftrightarrow> userId r = u \<and> sourceName r = s \<and> chunkIndex r = i"

text \<open>
  \<^verbatim>\<open>INSERT OR IGNORE INTO training_chunks (userId, sourceName, chunkIndex, text, status)\<close>:
  a row that would violate \<^verbatim>\<open>UNIQUE(userId, sourceName, chunkIndex)\<close> is not inserted; a new
  row gets the next id of \<^verbatim>\<open>AUTOINCREMENT\<close> and no embedding.
\<close>

definition next_rowid :: "worker_db \<Rightarrow> nat" where
  "next_rowid db = Suc (max (seq db) (fold max (map rowid (training_chunks db)) 0))"

definition insert_or_ignore ::
  "worker_db \<Rightarrow> string \<Rightarrow> string \<Rightarrow> nat \<Rightarrow> string \<Rightarrow> string \<Rightarrow> worker_db" where
  "insert_or_ignore db u s i t st =
     (if \<exists>r \<in> set (training_chunks db). same_key u s i r then db
      else db\<lparr>training_chunks := training_chunks db @
                  [\<lparr>rowid = next_rowid db, userId = u, sourceName = s, chunkIndex = i,
                    row_text = t, embedding = None, status = st\<rparr>],
                seq := next_rowid db\<rparr>)"


text \<open>\<^verbatim>\<open>UPDATE training_chunks SET ... WHERE id = ?\<close>\<close>

definition update_row :: "worker_db \<Rightarrow> nat \<Rightarrow> (chunk_row \<Rightarrow> chunk_row) \<Rightarrow> worker_db" where
  "update_row db i f =
     db\<lparr>training_chunks := map (\<lambda>r. if rowid r = i then f r else r) (training_chunks db)\<rparr>"

text \<open>\<^verbatim>\<open>DELETE FROM training_chunks WHERE userId = ?\<close> and \<^verbatim>\<open>idbDeleteUser\<close>.\<close>

definition delete_user_rows :: "worker_db \<Rightarrow> string \<Rightarrow> worker_db" where
  "delete_user_rows db u =
     db\<lparr>training_chunks := filter (\<lambda>r. userId r \<noteq> u) (training_chunks db)\<rparr>"

definition idbDeleteUser :: "worker_db \<Rightarrow> string \<Rightarrow> worker_db" where
  "idbDeleteUser db u =
     (case idb db of
        None \<Rightarrow> db
      | Some store \<Rightarrow> db\<lparr>idb := Some (filter (\<lambda>c. idb_userId c \<noteq> u) store)\<rparr>)"

text \<open>\<^verbatim>\<open>idbPutChunk\<close>: \<^verbatim>\<open>put\<close> replaces the record stored under the same key.\<close>

definition idbPutChunk :: "worker_db \<Rightarrow> idb_chunk \<Rightarrow> worker_db" where
  "idbPutChunk db c =
     (case idb db of
        None \<Rightarrow> db
      | Some store \<Rightarrow>
          db\<lparr>idb := Some (filter (\<lambda>x. idb_key x \<noteq> idb_key c) store @ [c])\<rparr>)"

subsection \<open>Similarity index\<close>

text \<open>
  Statements on the virtual table \<^verbatim>\<open>vectors\<close>; \<open>None\<close> is an exception.  An insert fails
  when the table is missing or the rowid is taken.  The model of the table accepts a blob of
  any length, so what is proved about the blobs that reach it rests on the checks of the
  worker alone.
\<close>

definition vec_insert :: "worker_db \<Rightarrow> nat \<Rightarrow> byte list \<Rightarrow> worker_db option" where
  "vec_insert db i bs =
     (if \<not> vectors_exists db \<or> i \<in> fst ` set (vectors db) then None
      else Some (db\<lparr>vectors := vectors db @ [(i, bs)]\<rparr>))"

definition vec_delete :: "worker_db \<Rightarrow> nat \<Rightarrow> worker_db option" where
  "vec_delete db i =
     (if \<not> vectors_exists db then None
      else Some (db\<lparr>vectors := filter (\<lambda>p. fst p \<noteq> i) (vectors db)\<rparr>))"

definition vec0Disable :: "worker_db \<Rightarrow> string \<Rightarrow> worker_db" where
  "vec0Disable db reason = db\<lparr>vec0Available := False, vec0DisabledReason := Some reason\<rparr>"

definition vec0Upsert :: "worker_db \<Rightarrow> nat \<Rightarrow> byte list \<Rightarrow> worker_db \<times> bool" where
  "vec0Upsert db i bs =
     (if \<not> vec0Available db then (db, False)
      else case vec_insert db i bs of
             Some db' \<Rightarrow> (db', True)
           | None \<Rightarrow>
               (case vec_delete db i of
                  None \<Rightarrow> (vec0Disable db ''insert_failed'', False)
                | Some db1 \<Rightarrow>
                    (case vec_insert db1 i bs of
                       Some db2 \<Rightarrow> (db2, True)
                     | None \<Rightarrow> (vec0Disable db1 ''insert_failed'', False))))"

subsection \<open>Rehydration from the mirror\<close>





subsection \<open>Segmenter of the worker\<close>

text \<open>
  \<^verbatim>\<open>text.split(/^##\s+/m)\<close>.  The first argument says whether the position is at the start
  of the text or follows a line terminator, the second is the part collected so far.  At a
  match the two number signs and all the whitespace after them are consumed.
\<close>

definition heading_at :: "string \<Rightarrow> bool" where
  "heading_at s \<longleftrightarrow>
     (case s of a # b # w # _ \<Rightarrow> a = CHR ''#'' \<and> b = CHR ''#'' \<and> is_space w | _ \<Rightarrow> False)"

definition ends_line :: "string \<Rightarrow> bool" where
  "ends_line ws \<longleftrightarrow> ws \<noteq> [] \<and> is_line_terminator (last ws)"

function split_headings :: "bool \<Rightarrow> string \<Rightarrow> string \<Rightarrow> string list" where
  "split_headings at_start cur [] = [cur]"
| "split_headings at_start cur (c # cs) =
     (if at_start \<and> heading_at (c # cs)
      then cur # split_headings (ends_line (takeWhile is_space (drop 1 cs))) []
                   (dropWhile is_space (drop 1 cs))
      else split_headings (is_line_terminator c) (cur @ [c]) cs)"
  by pat_completeness auto
termination
proof (relation "measure (\<lambda>(a, cur, s). length s)")
  show "wf (measure (\<lambda>(a, cur, s). length s))" by simp
next
  fix at_start :: bool and cur :: string and c :: char and cs :: string
  have "length (dropWhile is_space (drop 1 cs)) \<le> length (drop 1 cs)"
    by (rule length_dropWhile_le)
  then show "((ends_line (takeWhile is_space (drop 1 cs)), [], dropWhile is_space (drop 1 cs)),
              at_start, cur, c # cs) \<in> measure (\<lambda>(a, cur, s). length s)"
    by simp
next
  fix at_start :: bool and cur :: string and c :: char and cs :: string
  show "((is_line_terminator c, cur @ [c], cs), at_start, cur, c # cs)
          \<in> measure (\<lambda>(a, cur, s). length s)"
    by simp
qed

text \<open>
  A part after a heading: the title is its first line, the body the rest, and the section
  is \<^verbatim>\<open>`## ${title}\n${body}`.trim()\<close>.
\<close>

definition heading_section :: "string \<Rightarrow> string" where
  "heading_section part =
     (let title = takeWhile (\<lambda>c. c \<noteq> CHR 0x0A) part;
          body = trim (drop 1 (dropWhile (\<lambda>c. c \<noteq> CHR 0x0A) part))
      in trim (''## '' @ title @ [CHR 0x0A] @ body))"

definition sections_of :: "string \<Rightarrow> string list" where
  "sections_of text =
     (case split_headings True [] text of
        [] \<Rightarrow> [text]
      | [p] \<Rightarrow> [text]
      | head # parts \<Rightarrow>
          (if trim head \<noteq> [] then [trim head] else []) @ map heading_section parts)"

text \<open>\<^verbatim>\<open>s.slice(a, b)\<close> with the indices JavaScript allows: a negative one counts from the end.\<close>

definition js_slice :: "string \<Rightarrow> int \<Rightarrow> int \<Rightarrow> string" where
  "js_slice s a b =
     (let n = int (length s);
          from = (if a < 0 then max (n + a) 0 else min a n);
          to = (if b < 0 then max (n + b) 0 else min b n)
      in take (nat (to - from)) (drop (nat from) s))"

text \<open>
  The window loop over a section longer than \<^verbatim>\<open>maxLen\<close>, on fuel.  With \<^verbatim>\<open>overlap\<close>
  below \<^verbatim>\<open>maxLen\<close> the start advances and fuel above the length of the section suffices;
  otherwise the loop of the source does not end either.
\<close>

primrec window_loop ::
  "nat \<Rightarrow> string \<Rightarrow> int \<Rightarrow> int \<Rightarrow> int \<Rightarrow> string list \<Rightarrow> string list option" where
  "window_loop 0 sect maxLen overlap start chunks = None"
| "window_loop (Suc fuel) sect maxLen overlap start chunks =
     (if start < int (length sect) then
        (let chunks' = chunks @ [trim (js_slice sect start (start + maxLen))];
             start' = start + maxLen - overlap
         in if start' \<ge> int (length sect) - overlap then Some chunks'
            else window_loop fuel sect maxLen overlap start' chunks')
      else Some chunks)"

fun chunk_sections :: "string list \<Rightarrow> int \<Rightarrow> int \<Rightarrow> string list option" where
  "chunk_sections [] maxLen overlap = Some []"
| "chunk_sections (sect # rest) maxLen overlap =
     (case (if int (length sect) \<le> maxLen then Some [sect]
            else window_loop (Suc (length sect)) sect maxLen overlap 0 []) of
        None \<Rightarrow> None
      | Some cs \<Rightarrow> map_option ((@) cs) (chunk_sections rest maxLen overlap))"

definition chunkText_worker :: "string \<Rightarrow> int \<Rightarrow> int \<Rightarrow> string list option" where
  "chunkText_worker text maxLen overlap = chunk_sections (sections_of text) maxLen overlap"

subsection \<open>Ingestion\<close>

text \<open>Decimal digits of a number, for the key of the mirror.\<close>

fun string_of_nat :: "nat \<Rightarrow> string" where
  "string_of_nat n =
     (if n < 10 then [char_of (48 + n)]
      else string_of_nat (n div 10) @ [char_of (48 + n mod 10)])"

definition mirror_key :: "string \<Rightarrow> string \<Rightarrow> nat \<Rightarrow> string" where
  "mirror_key u s i = u @ ''::'' @ s @ ''::'' @ string_of_nat i"

text \<open>
  The body of the loop over the rows of a batch in \<^verbatim>\<open>prepareWithProgress\<close>.  The argument
  \<open>f32\<close> is \<^verbatim>\<open>vectorData ? new Float32Array(vectorData) : null\<close>.
\<close>

definition process_row ::
  "worker_db \<Rightarrow> string \<Rightarrow> string \<Rightarrow> chunk_row \<Rightarrow> float32 list option \<Rightarrow> worker_db" where
  "process_row db u s row f32 =
     (case (case f32 of None \<Rightarrow> None
                      | Some ws \<Rightarrow> toVecBlobFromEmbedding (Float32Array ws)) of
        None \<Rightarrow> update_row db (rowid row) (\<lambda>r. r\<lparr>status := ''completed''\<rparr>)
      | Some embeddingBytes \<Rightarrow>
          (let db1 = update_row db (rowid row)
                       (\<lambda>r. r\<lparr>embedding := Some embeddingBytes, status := ''completed''\<rparr>);
               db2 = fst (vec0Upsert db1 (rowid row) embeddingBytes)
           in idbPutChunk db2
                \<lparr>idb_key = mirror_key u s (chunkIndex row), idb_id = rowid row,
                 idb_userId = u, idb_sourceName = s, idb_chunkIndex = chunkIndex row,
                 idb_text = row_text row, idb_embedding = Uint8Array embeddingBytes,
                 idb_status = ''completed''\<rparr>))"

text \<open>
  What the embedding pipeline delivers for one pending row: the call of the batch throws,
  or the row gets its \<^verbatim>\<open>Float32Array\<close> (\<open>None\<close> for a falsy \<^verbatim>\<open>vectorData\<close>).  Batch sizes and
  their tuning by elapsed time only group the rows into calls; they are not modelled.
\<close>

datatype embed_outcome = PipeThrows | VectorData "float32 list option"

datatype prepare_result = DonePrepare | WorkerError

fun process_rows ::
  "worker_db \<Rightarrow> string \<Rightarrow> string \<Rightarrow> chunk_row list \<Rightarrow> embed_outcome list
     \<Rightarrow> worker_db \<times> prepare_result" where
  "process_rows db u s [] outs = (db, DonePrepare)"
| "process_rows db u s (row # rows) [] = (db, WorkerError)"
| "process_rows db u s (row # rows) (PipeThrows # outs) = (db, WorkerError)"
| "process_rows db u s (row # rows) (VectorData f32 # outs) =
     process_rows (process_row db u s row f32) u s rows outs"

definition init_pending :: "worker_db \<Rightarrow> string \<Rightarrow> string \<Rightarrow> string list \<Rightarrow> worker_db" where
  "init_pending db u s chunks =
     fold (\<lambda>(i, c) d. insert_or_ignore d u s i c ''pending'') (enumerate 0 chunks) db"

definition select_pending :: "worker_db \<Rightarrow> string \<Rightarrow> string \<Rightarrow> chunk_row list" where
  "select_pending db u s =
     sort_key chunkIndex
       (filter (\<lambda>r. userId r = u \<and> sourceName r = s \<and> status r = ''pending'')
          (training_chunks db))"

text \<open>
  \<^verbatim>\<open>prepareWithProgress(userId, text, sourceName, clearExisting)\<close>, with the segmenter called
  with its defaults.  The arguments after \<open>clearExisting\<close> say whether \<^verbatim>\<open>getEmbedder()\<close>
  returns and what the pipeline delivers.  \<open>None\<close>: the call does not return.
\<close>

definition prepareWithProgress ::
  "worker_db \<Rightarrow> string \<Rightarrow> string \<Rightarrow> string \<Rightarrow> bool \<Rightarrow> bool \<Rightarrow> embed_outcome list
     \<Rightarrow> (worker_db \<times> prepare_result) option" where
  "prepareWithProgress db u text s clearExisting embedder_ok outs =
     (case chunkText_worker text 1000 200 of
        None \<Rightarrow> None
      | Some chunks \<Rightarrow>
          (let db1 = (if clearExisting then idbDeleteUser (delete_user_rows db u) u else db);
               db2 = init_pending db1 u s chunks;
               pending = select_pending db2 u s
           in if \<not> embedder_ok then Some (db2, WorkerError)
              else Some (process_rows db2 u s pending outs)))"

text \<open>The rows of one source, and the uniqueness constraint of the table.\<close>

definition source_rows :: "worker_db \<Rightarrow> string \<Rightarrow> string \<Rightarrow> chunk_row list" where
  "source_rows db u s = filter (\<lambda>r. userId r = u \<and> sourceName r = s) (training_chunks db)"

definition unique_keys :: "worker_db \<Rightarrow> bool" where
  "unique_keys db \<longleftrightarrow>
     distinct (map (\<lambda>r. (userId r, sourceName r, chunkIndex r)) (training_chunks db))"

text \<open>
  The list of the keys \<^verbatim>\<open>(userId, sourceName, chunkIndex)\<close> of the table, what one ingestion
  of \<open>n\<close> chunks makes of it, and the number of keys of one source.
\<close>

definition keys :: "worker_db \<Rightarrow> (string \<times> string \<times> nat) list" where
  "keys db = map (\<lambda>r. (userId r, sourceName r, chunkIndex r)) (training_chunks db)"

definition ingest_keys ::
  "bool \<Rightarrow> string \<Rightarrow> string \<Rightarrow> nat \<Rightarrow> (string \<times> string \<times> nat) list
     \<Rightarrow> (string \<times> string \<times> nat) list" where
  "ingest_keys ce u s n K =
     (let Ka = (if ce then filter (\<lambda>k. fst k \<noteq> u) K else K)
      in Ka @ filter (\<lambda>k. k \<notin> set Ka) (map (\<lambda>i. (u, s, i)) [0 ..< n]))"

definition count_source :: "string \<Rightarrow> string \<Rightarrow> (string \<times> string \<times> nat) list \<Rightarrow> nat" where
  "count_source u s K = length (filter (\<lambda>k. fst k = u \<and> fst (snd k) = s) K)"

subsection \<open>Similarity search\<close>

text \<open>
  \<^verbatim>\<open>searchVectors(userId, vector, topK)\<close>.  The last argument is the outcome of the
  nearest-neighbour query on the index (\<open>Inl\<close>: it throws); the result rows are listed by
  their ids.  The function returns the state, the path taken and the rows it posts.
\<close>

datatype search_path = IndexDisabled | BadQueryVector | IndexQueryFailed | IndexUsed

definition searchVectors ::
  "worker_db \<Rightarrow> float32 list \<Rightarrow> string + nat list \<Rightarrow> worker_db \<times> search_path \<times> nat list" where
  "searchVectors db vector query =
     (if \<not> vec0Available db then (db, IndexDisabled, [])
      else case toVecBlobFromEmbedding (Float32Array vector) of
             None \<Rightarrow> (db, BadQueryVector, [])
           | Some embeddingBytes \<Rightarrow>
               (case (if vectors_exists db then query else Inl ''no such table: vectors'') of
                  Inl e \<Rightarrow> (db, IndexQueryFailed, [])
                | Inr rows \<Rightarrow> (db, IndexUsed, rows)))"


subsection \<open>Test data\<close>

definition demo_text :: string where
  "demo_text = ''## A\<newline>x\<newline>## B\<newline>y''"



definition zero_vector :: "float32 list" where
  "zero_vector = replicate 768 0"




section \<open>Lazily initialised handles of the worker and of the training module\<close>

subsection \<open>The database handle: \<^verbatim>\<open>getSQLite\<close>\<close>

text \<open>
  The module variables \<^verbatim>\<open>db\<close> and \<^verbatim>\<open>dbPromise\<close>, with the callers suspended on the
  memoized promise.  The worker runs one handler at a time, so the model takes one event at a
  time: a call of \<^verbatim>\<open>getSQLite\<close>, the fulfilment of the initialisation with a handle, or its
  rejection.  The continuation of the first caller (\<^verbatim>\<open>catch\<close>: \<^verbatim>\<open>dbPromise = null\<close>) runs
  as a microtask of the rejection, before any other handler, so it is part of that event.
  The three counters are ghost state: initialisations started, fulfilled and rejected.
\<close>

datatype 'a promise = Pending | Fulfilled 'a | Rejected string

record sqlite_module =
  db_handle :: "nat option"
  dbPromise :: "nat promise option"
  db_waiters :: "nat list"
  inits_started :: nat
  inits_fulfilled :: nat
  inits_rejected :: nat

datatype sq_event = CallGetSQLite nat | InitFulfilled nat | InitRejected string

datatype sq_reply = ReplyDb nat nat | ReplyError nat string

definition sq_initial :: sqlite_module where
  "sq_initial = \<lparr>db_handle = None, dbPromise = None, db_waiters = [],
                 inits_started = 0, inits_fulfilled = 0, inits_rejected = 0\<rparr>"

fun sq_step :: "sqlite_module \<Rightarrow> sq_event \<Rightarrow> sqlite_module \<times> sq_reply list" where
  "sq_step m (CallGetSQLite c) =
     (case db_handle m of
        Some h \<Rightarrow> (m, [ReplyDb c h])
      | None \<Rightarrow>
          (case dbPromise m of
             Some Pending \<Rightarrow> (m\<lparr>db_waiters := db_waiters m @ [c]\<rparr>, [])
           | Some (Fulfilled h) \<Rightarrow> (m, [ReplyDb c h])
           | Some (Rejected e) \<Rightarrow> (m, [ReplyError c e])
           | None \<Rightarrow>
               (m\<lparr>dbPromise := Some Pending, db_waiters := [c],
                  inits_started := Suc (inits_started m)\<rparr>, [])))"
| "sq_step m (InitFulfilled h) =
     (if dbPromise m = Some Pending
      then (m\<lparr>db_handle := Some h, dbPromise := Some (Fulfilled h), db_waiters := [],
              inits_fulfilled := Suc (inits_fulfilled m)\<rparr>,
            map (\<lambda>c. ReplyDb c h) (db_waiters m))
      else (m, []))"
| "sq_step m (InitRejected e) =
     (if dbPromise m = Some Pending
      then (m\<lparr>dbPromise := None, db_waiters := [],
              inits_rejected := Suc (inits_rejected m)\<rparr>,
            map (\<lambda>c. ReplyError c e) (db_waiters m))
      else (m, []))"

fun sq_run :: "sqlite_module \<Rightarrow> sq_event list \<Rightarrow> sqlite_module" where
  "sq_run m [] = m"
| "sq_run m (ev # evs) = sq_run (fst (sq_step m ev)) evs"

definition sq_inv :: "sqlite_module \<Rightarrow> bool" where
  "sq_inv m \<longleftrightarrow>
     inits_started m = inits_fulfilled m + inits_rejected m
                        + (if dbPromise m = Some Pending then 1 else 0)
     \<and> inits_fulfilled m \<le> 1
     \<and> (db_handle m = None \<longleftrightarrow> inits_fulfilled m = 0)
     \<and> (dbPromise m = None \<or> dbPromise m = Some Pending \<longrightarrow> db_handle m = None)
     \<and> (\<forall>e. dbPromise m \<noteq> Some (Rejected e))"

subsection \<open>The embedding pipeline: \<^verbatim>\<open>getEmbedder\<close>\<close>

text \<open>
  Calls of \<^verbatim>\<open>getEmbedder\<close> that are awaited one after another: the promise a call finds in
  \<^verbatim>\<open>embedderPromise\<close> is settled, and is modelled by its outcome (\<open>Inl\<close>: rejected with a
  message, \<open>Inr\<close>: fulfilled with the pipeline).  The argument \<open>load\<close> is the outcome
  \<^verbatim>\<open>pipeline(...)\<close> would have if it were called now.  The counter is ghost state.
\<close>

record embedder_module =
  embedderPromise :: "(string + nat) option"
  loads_started :: nat

definition embedder_initial :: embedder_module where
  "embedder_initial = \<lparr>embedderPromise = None, loads_started = 0\<rparr>"

text \<open>
  The worker: the probe for WebGPU is inside the memoized function and catches its own
  exceptions; only \<^verbatim>\<open>pipeline(...)\<close> can reject the promise.
\<close>

definition getEmbedder_worker ::
  "embedder_module \<Rightarrow> string + nat \<Rightarrow> embedder_module \<times> (string + nat)" where
  "getEmbedder_worker m load =
     (case embedderPromise m of
        None \<Rightarrow> (m\<lparr>embedderPromise := Some load, loads_started := Suc (loads_started m)\<rparr>, load)
      | Some r \<Rightarrow> (m, r))"

text \<open>
  The training module: \<^verbatim>\<open>await checkWebGPU()\<close> comes before the assignment of
  \<^verbatim>\<open>embedderPromise\<close>; when it throws, nothing is stored.
\<close>

definition getEmbedder_training ::
  "embedder_module \<Rightarrow> string + bool \<Rightarrow> string + nat \<Rightarrow> embedder_module \<times> (string + nat)" where
  "getEmbedder_training m probe load =
     (case embedderPromise m of
        None \<Rightarrow>
          (case probe of
             Inl e \<Rightarrow> (m, Inl e)
           | Inr isWebGPU \<Rightarrow>
               (m\<lparr>embedderPromise := Some load, loads_started := Suc (loads_started m)\<rparr>, load))
      | Some r \<Rightarrow> (m, r))"

text \<open>
  The step of \<^verbatim>\<open>processTrainingInput\<close> that loads the model: any failure becomes the error
  shown to the user, whose message says that the model could not be fetched or started and
  asks to reload the page.  The worker posts the message of the error as it is.
\<close>

datatype training_error = ModelLoadFailedReloadPage

definition load_model_for_training ::
  "embedder_module \<Rightarrow> string + bool \<Rightarrow> string + nat
     \<Rightarrow> embedder_module \<times> (training_error + nat)" where
  "load_model_for_training m probe load =
     (case getEmbedder_training m probe load of
        (m', Inl e) \<Rightarrow> (m', Inl ModelLoadFailedReloadPage)
      | (m', Inr p) \<Rightarrow> (m', Inr p))"


section \<open>Session orchestrator (services/chat-session)\<close>

text \<open>
  The collaborators of \<^verbatim>\<open>sendMessage\<close>: the two generation calls of the language-model
  client, each a function of the message list and the optional context (\<open>Inl\<close>: it throws),
  \<^verbatim>\<open>getRelevantContext\<close> (\<open>Inl\<close>: it throws; \<open>Inr None\<close>: \<^verbatim>\<open>undefined\<close>), and
  \<^verbatim>\<open>archiveMessages\<close> (whether it resolves).  The optional callbacks \<^verbatim>\<open>onMessageAdded\<close>
  and \<^verbatim>\<open>onEvicted\<close> are absent.
\<close>

type_synonym chat_message = "role \<times> string"

record collaborators =
  generateResponse :: "chat_message list \<Rightarrow> string option \<Rightarrow> string + string"
  streamResponse :: "chat_message list \<Rightarrow> string option \<Rightarrow> string + string"
  getRelevantContext :: "string \<Rightarrow> string + string option"
  archiveMessages :: "ConversationMessage list \<Rightarrow> bool"

record ChatSession =
  session_id :: string
  useContext :: bool

text \<open>The constructor: \<^verbatim>\<open>config.sessionId || "default"\<close>, \<^verbatim>\<open>config.useContext ?? true\<close>.\<close>

definition new_ChatSession :: "string option \<Rightarrow> bool option \<Rightarrow> ChatSession" where
  "new_ChatSession sid uc =
     \<lparr>session_id = (case sid of None \<Rightarrow> ''default''
                                | Some s \<Rightarrow> if s = [] then ''default'' else s),
      useContext = (case uc of None \<Rightarrow> True | Some b \<Rightarrow> b)\<rparr>"

datatype send_error = StoreFailed idb_error | ArchiveFailed | GenerationFailed string

text \<open>
  \<^verbatim>\<open>sendMessage(userContent, onStream?)\<close>.  The flag says whether \<^verbatim>\<open>onStream\<close> is given; the
  last four arguments are the ids and instants of the two turns.  The result is the memory
  window, the generation calls made (messages and context), and the reply or the exception.
\<close>

definition sendMessage ::
  "ChatSession \<Rightarrow> collaborators \<Rightarrow> memory_db \<Rightarrow> string \<Rightarrow> bool
     \<Rightarrow> string \<Rightarrow> nat \<Rightarrow> string \<Rightarrow> nat
     \<Rightarrow> memory_db \<times> (chat_message list \<times> string option) list \<times> (send_error + string)" where
  "sendMessage cs col db userContent onStream uuid1 now1 uuid2 now2 =
     (case addMessage db User userContent (session_id cs) uuid1 now1 of
        (db1, Inl e) \<Rightarrow> (db1, [], Inl (StoreFailed e))
      | (db1, Inr (userMsg, userEvicted)) \<Rightarrow>
          if userEvicted \<noteq> [] \<and> \<not> archiveMessages col userEvicted
          then (db1, [], Inl ArchiveFailed)
          else
            (let recentMessages =
                   getRecentMessages db1 (RESPONSE_BUFFER * 4) (Some (session_id cs));
                 msgs = map (\<lambda>m. (msg_role m, content m)) recentMessages;
                 context = (if useContext cs
                            then (case getRelevantContext col userContent of
                                    Inl e \<Rightarrow> None
                                  | Inr c \<Rightarrow> c)
                            else None);
                 reply = (if onStream then streamResponse col msgs context
                          else generateResponse col msgs context)
             in case reply of
                  Inl e \<Rightarrow> (db1, [(msgs, context)], Inl (GenerationFailed e))
                | Inr assistantContent \<Rightarrow>
                    (case addMessage db1 Assistant assistantContent (session_id cs)
                            uuid2 now2 of
                       (db2, Inl e) \<Rightarrow> (db2, [(msgs, context)], Inl (StoreFailed e))
                     | (db2, Inr (assistantMsg, assistantEvicted)) \<Rightarrow>
                         if assistantEvicted \<noteq> [] \<and> \<not> archiveMessages col assistantEvicted
                         then (db2, [(msgs, context)], Inl ArchiveFailed)
                         else (db2, [(msgs, context)], Inr assistantContent))))"

subsection \<open>Test data\<close>

definition demo_collaborators :: collaborators where
  "demo_collaborators =
     \<lparr>generateResponse = (\<lambda>msgs ctx. case ctx of None \<Rightarrow> Inr ''plain'' | Some c \<Rightarrow> Inr c),
      streamResponse = (\<lambda>msgs ctx. Inr ''streamed''),
      getRelevantContext = (\<lambda>q. Inl ''Worker timeout''),
      archiveMessages = (\<lambda>ms. True)\<rparr>"

definition msg_hello :: ConversationMessage where
  "msg_hello = \<lparr>msg_id = ''u1'', msg_role = User, content = ''hello'', createdAt = 1,
                 tokenCount = 6, sessionId = ''default''\<rparr>"

definition db_hello :: memory_db where
  "db_hello = \<lparr>messages = [msg_hello],
                meta_main = Some \<lparr>tokenTotal = 6, messageCount = 1,
                                  oldestMessageId = Some ''u1'', newestMessageId = Some ''u1''\<rparr>\<rparr>"


section \<open>Properties of the active memory window\<close>

lemma mset_byCreatedAt: "mset (byCreatedAt db) = mset (messages db)"
  by (simp add: byCreatedAt_def)

lemma evict_loop_shape:
  "evict_loop xs db ev t = (db', ev', t') \<Longrightarrow>
     \<exists>k\<le>length xs. ev' = ev @ take k xs
       \<and> t' = t - sum_list (map tokenCount (take k xs))
       \<and> messages db' = filter (\<lambda>m. msg_id m \<notin> msg_id ` set (take k xs)) (messages db)
       \<and> meta_main db' = meta_main db
       \<and> (t' \<le> EVICTION_TARGET \<or> k = length xs)"
proof (induction xs arbitrary: db ev t)
  case Nil
  then show ?case by simp
next
  case (Cons x xs)
  show ?case
  proof (cases "t \<le> EVICTION_TARGET")
    case True
    with Cons.prems show ?thesis by (intro exI[of _ 0]) simp
  next
    case False
    with Cons.prems have
      "evict_loop xs (db_delete db (msg_id x)) (ev @ [x]) (t - tokenCount x) = (db', ev', t')"
      by simp
    from Cons.IH[OF this] obtain k where k: "k \<le> length xs"
      "ev' = (ev @ [x]) @ take k xs"
      "t' = t - tokenCount x - sum_list (map tokenCount (take k xs))"
      "messages db' = filter (\<lambda>m. msg_id m \<notin> msg_id ` set (take k xs))
                        (messages (db_delete db (msg_id x)))"
      "meta_main db' = meta_main (db_delete db (msg_id x))"
      "t' \<le> EVICTION_TARGET \<or> k = length xs"
      by blast
    have "messages db' = filter (\<lambda>m. msg_id m \<notin> msg_id ` set (take (Suc k) (x # xs))) (messages db)"
      using k(4) by (auto simp: db_delete_def intro: filter_cong)
    with k show ?thesis
      by (intro exI[of _ "Suc k"]) (auto simp: db_delete_def)
  qed
qed

lemma filter_not_taken:
  assumes "mset ms = mset xs" and "distinct (map msg_id ms)"
  shows "mset (filter (\<lambda>m. msg_id m \<notin> msg_id ` set (take k xs)) ms) = mset (drop k xs)"
proof -
  let ?P = "\<lambda>m. msg_id m \<notin> msg_id ` set (take k xs)"
  have "mset (map msg_id ms) = mset (map msg_id xs)"
    using assms(1) by (metis mset_map)
  then have dx: "distinct (map msg_id xs)"
    using assms(2) by (metis mset_eq_imp_distinct_iff)
  then have "distinct (map msg_id (take k xs @ drop k xs))" by simp
  then have disj: "msg_id ` set (take k xs) \<inter> msg_id ` set (drop k xs) = {}"
    unfolding map_append distinct_append by simp
  have split: "mset xs = mset (take k xs) + mset (drop k xs)"
    by (simp flip: mset_append)
  have "mset (filter ?P ms) = filter_mset ?P (mset xs)"
    using assms(1) by simp
  also have "\<dots> = filter_mset ?P (mset (take k xs)) + filter_mset ?P (mset (drop k xs))"
    by (subst split) simp
  also have "filter_mset ?P (mset (take k xs)) = {#}"
    by auto
  also have "filter_mset ?P (mset (drop k xs)) = mset (drop k xs)"
    using disj by (auto simp: filter_mset_eq_conv)
  finally show ?thesis by simp
qed

lemma sum_mset_tokens: "mset xs = mset ys \<Longrightarrow> sum_list (map tokenCount xs) = sum_list (map tokenCount ys)"
  by (metis mset_map sum_mset_sum_list)

lemma addMessage_step:
  assumes cons: "consistent db" and fresh: "uuid \<notin> msg_id ` set (messages db)"
  shows "\<exists>db' m ev. addMessage db r c sid uuid now = (db', Inr (m, ev))
      \<and> msg_id m = uuid \<and> sessionId m = sid \<and> content m = c \<and> msg_role m = r
      \<and> tokenCount m = estimateMessageTokens c
      \<and> consistent db'
      \<and> tokenTotal (getMeta db') \<le> max ACTIVE_MEMORY (tokenCount m)
      \<and> (ev \<noteq> [] \<longrightarrow> tokenTotal (getMeta db') \<le> max EVICTION_TARGET (tokenCount m))
      \<and> ev = take (length ev) (byCreatedAt db)
      \<and> mset (messages db') = mset (messages db) - mset ev + {#m#}
      \<and> m \<in> set (messages db')"
proof -
  define m where "m = \<lparr>msg_id = uuid, msg_role = r, content = c, createdAt = now,
                     tokenCount = estimateMessageTokens c, sessionId = sid\<rparr>"
  define t where "t = tokenTotal (getMeta db) + tokenCount m"
  define xs where "xs = byCreatedAt db"
  have perm: "mset (messages db) = mset xs"
    by (simp add: xs_def mset_byCreatedAt)
  from cons have dist: "distinct (map msg_id (messages db))"
    and tot: "tokenTotal (getMeta db) = sum_list (map tokenCount (messages db))"
    by (simp_all add: consistent_def)
  obtain db1 ev t1 where sel:
    "(if t > ACTIVE_MEMORY then evict_loop xs db [] t else (db, [], t)) = (db1, ev, t1)"
    using prod_cases3 by blast
  have shape: "\<exists>k\<le>length xs. ev = take k xs
       \<and> t1 = t - sum_list (map tokenCount (take k xs))
       \<and> messages db1 = filter (\<lambda>m. msg_id m \<notin> msg_id ` set (take k xs)) (messages db)
       \<and> (t1 \<le> max ACTIVE_MEMORY (tokenCount m))
       \<and> (k \<noteq> 0 \<longrightarrow> t1 \<le> max EVICTION_TARGET (tokenCount m))"
  proof (cases "t > ACTIVE_MEMORY")
    case True
    with sel have "evict_loop xs db [] t = (db1, ev, t1)" by simp
    from evict_loop_shape[OF this] obtain k where k: "k \<le> length xs" "ev = take k xs"
      "t1 = t - sum_list (map tokenCount (take k xs))"
      "messages db1 = filter (\<lambda>m. msg_id m \<notin> msg_id ` set (take k xs)) (messages db)"
      "t1 \<le> EVICTION_TARGET \<or> k = length xs"
      by auto
    have "t1 \<le> max EVICTION_TARGET (tokenCount m)"
    proof (cases "t1 \<le> EVICTION_TARGET")
      case True then show ?thesis by simp
    next
      case False
      with k(5) have "k = length xs" by simp
      then have "t1 = t - sum_list (map tokenCount xs)" using k(3) by simp
      also have "sum_list (map tokenCount xs) = sum_list (map tokenCount (messages db))"
        using perm[symmetric] by (rule sum_mset_tokens)
      finally show ?thesis using tot by (simp add: t_def)
    qed
    moreover have "EVICTION_TARGET \<le> ACTIVE_MEMORY"
      by (simp add: EVICTION_TARGET_def ACTIVE_MEMORY_def)
    ultimately show ?thesis using k by (intro exI[of _ k]) auto
  next
    case False
    with sel have "db1 = db" "ev = []" "t1 = t" by simp_all
    with False show ?thesis by (intro exI[of _ 0]) auto
  qed
  then obtain k where k: "k \<le> length xs" "ev = take k xs"
      "t1 = t - sum_list (map tokenCount (take k xs))"
      "messages db1 = filter (\<lambda>m. msg_id m \<notin> msg_id ` set (take k xs)) (messages db)"
      "t1 \<le> max ACTIVE_MEMORY (tokenCount m)"
      "k \<noteq> 0 \<longrightarrow> t1 \<le> max EVICTION_TARGET (tokenCount m)"
    by blast
  have rest: "mset (messages db1) = mset (drop k xs)"
    unfolding k(4) using perm dist by (rule filter_not_taken)
  have sub: "set (messages db1) \<subseteq> set (messages db)"
    unfolding k(4) by auto
  with fresh have fresh1: "msg_id m \<notin> msg_id ` set (messages db1)"
    by (auto simp: m_def)
  define db2 where "db2 = db1\<lparr>messages := messages db1 @ [m]\<rparr>"
  have add: "db_add db1 m = Inr db2"
    using fresh1 by (simp add: db_add_def db2_def)
  define db3 where "db3 = db2\<lparr>meta_main := Some ((getMeta db2)
                          \<lparr>tokenTotal := t1,
                           messageCount := length (byCreatedAt db2),
                           oldestMessageId := id_of_first (byCreatedAt db2),
                           newestMessageId := id_of_last (byCreatedAt db2)\<rparr>)\<rparr>"
  have res: "addMessage db r c sid uuid now = (db3, Inr (m, ev))"
    unfolding addMessage_def Let_def
    unfolding m_def[symmetric] t_def[symmetric] xs_def[symmetric]
    unfolding sel
    by (simp add: add db3_def)
  have msgs3: "messages db3 = messages db1 @ [m]"
    by (simp add: db3_def db2_def)
  have tot3: "tokenTotal (getMeta db3) = t1"
    by (simp add: db3_def getMeta_def)
  have split: "mset xs = mset (take k xs) + mset (drop k xs)"
    by (simp flip: mset_append)
  have sumsplit: "sum_list (map tokenCount xs)
      = sum_list (map tokenCount (take k xs)) + sum_list (map tokenCount (drop k xs))"
    by (metis append_take_drop_id map_append sum_list_append)
  have "sum_list (map tokenCount (messages db1)) = sum_list (map tokenCount (drop k xs))"
    using rest by (rule sum_mset_tokens)
  moreover have "sum_list (map tokenCount (messages db)) = sum_list (map tokenCount xs)"
    using perm by (rule sum_mset_tokens)
  ultimately have sum3: "sum_list (map tokenCount (messages db3)) = t1"
    using sumsplit tot k(3) by (simp add: msgs3 t_def)
  have "distinct (map msg_id (messages db1))"
    unfolding k(4) using dist by (simp add: distinct_map_filter)
  with fresh1 have dist3: "distinct (map msg_id (messages db3))"
    by (simp add: msgs3)
  have cons3: "consistent db3"
    using dist3 sum3 tot3 by (simp add: consistent_def)
  have evtake: "ev = take (length ev) (byCreatedAt db)"
    using k(1,2) by (simp add: xs_def)
  have ms3: "mset (messages db3) = mset (messages db) - mset ev + {#m#}"
    using rest perm split k(2) by (simp add: msgs3)
  have evne: "ev \<noteq> [] \<longrightarrow> t1 \<le> max EVICTION_TARGET (tokenCount m)"
    using k(2,6) by auto
  show ?thesis
    using res cons3 tot3 k(5) evne evtake ms3 msgs3
    by (intro exI[of _ db3] exI[of _ m] exI[of _ ev]) (simp add: m_def)
qed

lemma consistent_empty: "consistent empty_db"
  by (simp add: consistent_def empty_db_def getMeta_def)

lemma ids_after_call:
  assumes "consistent db" "call_uuid c \<notin> msg_id ` set (messages db)"
  shows "consistent (fst (do_call db c))
     \<and> msg_id ` set (messages (fst (do_call db c))) \<subseteq> insert (call_uuid c) (msg_id ` set (messages db))"
proof -
  from addMessage_step[OF assms, of "call_role c" "call_content c" "call_session c" "call_now c"]
  obtain db' m ev where r: "do_call db c = (db', Inr (m, ev))" "msg_id m = call_uuid c"
    "consistent db'" "mset (messages db') = mset (messages db) - mset ev + {#m#}"
    unfolding do_call_def by blast
  have "set (messages db') \<subseteq> insert m (set (messages db))"
  proof
    fix x assume "x \<in> set (messages db')"
    then have "x \<in># mset (messages db) - mset ev + {#m#}" using r(4) by (metis set_mset_mset)
    then show "x \<in> insert m (set (messages db))"
      by (auto dest: in_diffD)
  qed
  with r show ?thesis by auto
qed

lemma run_calls_consistent:
  assumes "consistent db" "distinct (map call_uuid cs)"
    "msg_id ` set (messages db) \<inter> set (map call_uuid cs) = {}"
  shows "consistent (run_calls db cs)
     \<and> msg_id ` set (messages (run_calls db cs)) \<subseteq> msg_id ` set (messages db) \<union> set (map call_uuid cs)"
  using assms
proof (induction cs arbitrary: db)
  case Nil
  then show ?case by simp
next
  case (Cons c cs)
  let ?db' = "fst (do_call db c)"
  have fr: "call_uuid c \<notin> msg_id ` set (messages db)"
    using Cons.prems(3) by auto
  from ids_after_call[OF Cons.prems(1) fr]
  have c': "consistent ?db'"
    and ids': "msg_id ` set (messages ?db') \<subseteq> insert (call_uuid c) (msg_id ` set (messages db))"
    by simp_all
  have d: "distinct (map call_uuid cs)" using Cons.prems(2) by simp
  have nc: "call_uuid c \<notin> set (map call_uuid cs)"
    using Cons.prems(2) by simp
  have old: "msg_id ` set (messages db) \<inter> set (map call_uuid cs) = {}"
    using Cons.prems(3) by auto
  have disj: "msg_id ` set (messages ?db') \<inter> set (map call_uuid cs) = {}"
  proof -
    have "msg_id ` set (messages ?db') \<inter> set (map call_uuid cs)
        \<subseteq> insert (call_uuid c) (msg_id ` set (messages db)) \<inter> set (map call_uuid cs)"
      using ids' by (rule Int_mono) (rule subset_refl)
    also have "\<dots> = {}"
      using nc old by (simp only: Int_insert_left if_False)
    finally show ?thesis by simp
  qed
  from Cons.IH[OF c' d disj]
  have c2: "consistent (run_calls ?db' cs)"
    and ids2: "msg_id ` set (messages (run_calls ?db' cs))
        \<subseteq> msg_id ` set (messages ?db') \<union> set (map call_uuid cs)"
    by simp_all
  have "msg_id ` set (messages ?db') \<union> set (map call_uuid cs)
        \<subseteq> msg_id ` set (messages db) \<union> set (map call_uuid (c # cs))"
    using ids' by (simp only: list.map list.set) (rule Un_least, auto)
  with ids2 have "msg_id ` set (messages (run_calls ?db' cs))
        \<subseteq> msg_id ` set (messages db) \<union> set (map call_uuid (c # cs))"
    by (rule subset_trans)
  with c2 show ?case by simp
qed

text \<open>
  Claim C1, as amended.  In every sequence of \<^verbatim>\<open>addMessage\<close> calls with fresh ids, starting
  from the empty window, each call returns, and after it the recorded \<open>tokenTotal\<close> is at most
  the larger of the ceiling (800000) and the token cost of the turn just added; when the call
  evicted at least one turn, \<open>tokenTotal\<close> is at most the larger of 90 percent of the ceiling
  (720000) and the token cost of the turn just added.  The recorded total is the sum of the
  stored token counts.  The evicted turns are a prefix of the window listed in creation order
  (the \<^verbatim>\<open>byCreatedAt\<close> index, oldest first), they are exactly the turns removed from the store,
  and all of them are returned to the caller.  So whenever the new turn costs at most 720000
  tokens, the two bounds of the claim hold as stated.
\<close>

theorem addMessage_token_bound:
  assumes "distinct (map call_uuid (cs @ [c]))"
  shows "\<exists>db' m ev. do_call (run_calls empty_db cs) c = (db', Inr (m, ev))
      \<and> tokenTotal (getMeta db') \<le> max ACTIVE_MEMORY (tokenCount m)
      \<and> (ev \<noteq> [] \<longrightarrow> tokenTotal (getMeta db') \<le> max EVICTION_TARGET (tokenCount m))
      \<and> tokenTotal (getMeta db') = sum_list (map tokenCount (messages db'))
      \<and> ev = take (length ev) (byCreatedAt (run_calls empty_db cs))
      \<and> mset (messages db') = mset (messages (run_calls empty_db cs)) - mset ev + {#m#}"
proof -
  let ?db = "run_calls empty_db cs"
  have d: "distinct (map call_uuid cs)" using assms by simp
  have "msg_id ` set (messages empty_db) \<inter> set (map call_uuid cs) = {}"
    by (simp add: empty_db_def)
  from run_calls_consistent[OF consistent_empty d this]
  have c: "consistent ?db" and ids: "msg_id ` set (messages ?db) \<subseteq> set (map call_uuid cs)"
    by (simp_all add: empty_db_def)
  have fr: "call_uuid c \<notin> msg_id ` set (messages ?db)"
    using assms ids by auto
  from addMessage_step[OF c fr, of "call_role c" "call_content c" "call_session c" "call_now c"]
  obtain db' m ev where r: "do_call ?db c = (db', Inr (m, ev))"
    and c': "consistent db'"
    and b1: "tokenTotal (getMeta db') \<le> max ACTIVE_MEMORY (tokenCount m)"
    and b2: "ev \<noteq> [] \<longrightarrow> tokenTotal (getMeta db') \<le> max EVICTION_TARGET (tokenCount m)"
    and pre: "ev = take (length ev) (byCreatedAt ?db)"
    and ms: "mset (messages db') = mset (messages ?db) - mset ev + {#m#}"
    unfolding do_call_def by blast
  from c' have "tokenTotal (getMeta db') = sum_list (map tokenCount (messages db'))"
    by (simp add: consistent_def)
  with r b1 b2 pre ms show ?thesis
    by (intro exI[of _ db'] exI[of _ m] exI[of _ ev] conjI)
qed

lemma length_filler [simp]: "length (filler n) = n"
  by (simp add: filler_def)

lemma filler_Nil [simp]: "filler n = [] \<longleftrightarrow> n = 0"
  by (simp add: filler_def)

lemma tokens_filler: "0 < n \<Longrightarrow> estimateMessageTokens (filler n) = (2 * int n + 6) div 7 + 4"
  by (simp add: estimateMessageTokens_def estimateTokens_def)

lemma run_call_b:
  "run_calls empty_db [call_b]
     = \<lparr>messages = [msg_b],
        meta_main = Some \<lparr>tokenTotal = 700000, messageCount = 1,
                          oldestMessageId = Some ''u1'', newestMessageId = Some ''u1''\<rparr>\<rparr>"
  by (simp add: do_call_def call_b_def addMessage_def Let_def getMeta_def empty_db_def
      tokens_filler ACTIVE_MEMORY_def db_add_def byCreatedAt_def id_of_first_def id_of_last_def
      msg_b_def)

lemma do_call_a_after_b:
  "do_call (run_calls empty_db [call_b]) call_a
     = (\<lparr>messages = [msg_a],
         meta_main = Some \<lparr>tokenTotal = 100004, messageCount = 1,
                          oldestMessageId = Some ''u2'', newestMessageId = Some ''u2''\<rparr>\<rparr>,
        Inr (msg_a, [msg_b]))"
  unfolding run_call_b
  by (simp add: do_call_def call_a_def addMessage_def Let_def getMeta_def
      tokens_filler ACTIVE_MEMORY_def EVICTION_TARGET_def db_add_def db_delete_def
      byCreatedAt_def id_of_first_def id_of_last_def msg_a_def msg_b_def)

lemma do_call_huge:
  "tokenTotal (getMeta (fst (do_call empty_db call_huge))) = 800004"
  by (simp add: do_call_def call_huge_def addMessage_def Let_def getMeta_def empty_db_def
      tokens_filler ACTIVE_MEMORY_def db_add_def byCreatedAt_def id_of_first_def id_of_last_def)

lemma run_call_tiny:
  "run_calls empty_db [call_tiny]
     = \<lparr>messages = [msg_tiny],
        meta_main = Some \<lparr>tokenTotal = 6, messageCount = 1,
                          oldestMessageId = Some ''u4'', newestMessageId = Some ''u4''\<rparr>\<rparr>"
  by (simp add: do_call_def call_tiny_def addMessage_def Let_def getMeta_def empty_db_def
      tokens_filler ACTIVE_MEMORY_def db_add_def byCreatedAt_def id_of_first_def id_of_last_def
      msg_tiny_def)

lemma do_call_big_after_tiny:
  "evicted_of (do_call (run_calls empty_db [call_tiny]) call_big) = Some [msg_tiny]
   \<and> tokenTotal (getMeta (fst (do_call (run_calls empty_db [call_tiny]) call_big))) = 800000"
  unfolding run_call_tiny
  by (simp add: do_call_def call_big_def addMessage_def Let_def getMeta_def evicted_of_def
      tokens_filler ACTIVE_MEMORY_def EVICTION_TARGET_def db_add_def db_delete_def
      byCreatedAt_def id_of_first_def id_of_last_def msg_tiny_def)

text \<open>
  The bounds of claim C1 as stated fail for a turn that alone costs more than the budget: a
  first message of 2800000 characters leaves a total of 800004, and a message of 800000
  tokens added after a small one evicts the small one and leaves a total of 800000, above
  720000.
\<close>

theorem addMessage_ceiling_counterexample:
  "\<not> tokenTotal (getMeta (fst (do_call (run_calls empty_db []) call_huge))) \<le> ACTIVE_MEMORY
   \<and> evicted_of (do_call (run_calls empty_db [call_tiny]) call_big) = Some [msg_tiny]
   \<and> \<not> tokenTotal (getMeta (fst (do_call (run_calls empty_db [call_tiny]) call_big)))
         \<le> EVICTION_TARGET"
  using do_call_huge do_call_big_after_tiny
  by (simp add: ACTIVE_MEMORY_def EVICTION_TARGET_def)

theorem addMessage_token_bound_witness:
  "distinct (map call_uuid ([call_b] @ [call_a]))
   \<and> do_call (run_calls empty_db [call_b]) call_a
       = (fst (do_call (run_calls empty_db [call_b]) call_a), Inr (msg_a, [msg_b]))
   \<and> [msg_b] \<noteq> []
   \<and> tokenTotal (getMeta (fst (do_call (run_calls empty_db [call_b]) call_a)))
       \<le> max EVICTION_TARGET (tokenCount msg_a)
   \<and> [msg_b] = take (length [msg_b]) (byCreatedAt (run_calls empty_db [call_b]))"
proof -
  have d: "distinct (map call_uuid ([call_b] @ [call_a]))"
    by (simp add: call_a_def call_b_def)
  from addMessage_token_bound[OF d] obtain db' m ev where
    r: "do_call (run_calls empty_db [call_b]) call_a = (db', Inr (m, ev))"
    and b: "ev \<noteq> [] \<longrightarrow> tokenTotal (getMeta db') \<le> max EVICTION_TARGET (tokenCount m)"
    and p: "ev = take (length ev) (byCreatedAt (run_calls empty_db [call_b]))"
    by blast
  from r[unfolded do_call_a_after_b] have e: "m = msg_a" "ev = [msg_b]"
    by simp_all
  have f: "fst (do_call (run_calls empty_db [call_b]) call_a) = db'"
    by (simp only: r fst_conv)
  from b e have "tokenTotal (getMeta db') \<le> max EVICTION_TARGET (tokenCount msg_a)"
    by simp
  then have g: "tokenTotal (getMeta (fst (do_call (run_calls empty_db [call_b]) call_a)))
       \<le> max EVICTION_TARGET (tokenCount msg_a)"
    by (simp only: f)
  have h: "do_call (run_calls empty_db [call_b]) call_a
       = (fst (do_call (run_calls empty_db [call_b]) call_a), Inr (msg_a, [msg_b]))"
    by (simp only: r fst_conv e)
  have n: "[msg_b] \<noteq> []" by simp
  from d h n g p[unfolded e] show ?thesis
    by (intro conjI)
qed

lemma set_recent_loop:
  "set (recent_loop xs acc tc maxTokens) \<subseteq> set xs \<union> set acc"
  by (induction xs acc tc maxTokens rule: recent_loop.induct) auto

lemma set_bySessionId: "m \<in> set (bySessionId db s) \<Longrightarrow> sessionId m = s"
  by (simp add: bySessionId_def)

text \<open>
  Claim C9, as amended.  Reads are scoped by session: \<^verbatim>\<open>getMessages\<close> and
  \<^verbatim>\<open>getRecentMessages\<close> called with a non-empty session id return only turns of that session,
  and \<^verbatim>\<open>addMessage\<close> stores the new turn under the session id it is given.  Eviction is not
  scoped by session: the token budget is one total for the whole window, the evicted turns
  are a prefix of the listing of all sessions in creation order, and they do not depend on the
  session id of the call.
\<close>

theorem session_scoping:
  "(s \<noteq> [] \<longrightarrow>
      (\<forall>m \<in> set (getMessages db (Some s)). sessionId m = s) \<and>
      (\<forall>m \<in> set (getRecentMessages db maxTokens (Some s)). sessionId m = s))
   \<and> (\<forall>db' m ev. addMessage db r c sid uuid now = (db', Inr (m, ev)) \<longrightarrow>
         sessionId m = sid \<and> ev = take (length ev) (byCreatedAt db))
   \<and> evicted_of (addMessage db r c sid uuid now) = evicted_of (addMessage db r c sid' uuid now)"
proof (intro conjI impI allI)
  assume s: "s \<noteq> []"
  show "\<forall>m \<in> set (getMessages db (Some s)). sessionId m = s"
    using s by (auto simp: getMessages_def dest: set_bySessionId)
  show "\<forall>m \<in> set (getRecentMessages db maxTokens (Some s)). sessionId m = s"
  proof
    fix m assume "m \<in> set (getRecentMessages db maxTokens (Some s))"
    then have "m \<in> set (rev (getMessages db (Some s))) \<union> set []"
      unfolding getRecentMessages_def using set_recent_loop by blast
    then show "sessionId m = s"
      using s by (auto simp: getMessages_def dest: set_bySessionId)
  qed
next
  fix db' m ev
  assume a: "addMessage db r c sid uuid now = (db', Inr (m, ev))"
  define msg where "msg = \<lparr>msg_id = uuid, msg_role = r, content = c, createdAt = now,
                     tokenCount = estimateMessageTokens c, sessionId = sid\<rparr>"
  define t where "t = tokenTotal (getMeta db) + tokenCount msg"
  define R where
    "R = (if t > ACTIVE_MEMORY then evict_loop (byCreatedAt db) db [] t else (db, [], t))"
  have unf: "addMessage db r c sid uuid now =
      (case R of (db1, evicted, total1) \<Rightarrow>
         (case db_add db1 msg of
            Inl e \<Rightarrow> (db1, Inl e)
          | Inr db2 \<Rightarrow>
              (db2\<lparr>meta_main := Some ((getMeta db2)
                          \<lparr>tokenTotal := total1,
                           messageCount := length (byCreatedAt db2),
                           oldestMessageId := id_of_first (byCreatedAt db2),
                           newestMessageId := id_of_last (byCreatedAt db2)\<rparr>)\<rparr>,
               Inr (msg, evicted))))"
    unfolding addMessage_def Let_def R_def t_def msg_def ..
  obtain db1 ev1 t1 where sel: "R = (db1, ev1, t1)"
    using prod_cases3 by blast
  have "\<exists>k \<le> length (byCreatedAt db). ev1 = take k (byCreatedAt db)"
  proof (cases "t > ACTIVE_MEMORY")
    case True
    with sel have "evict_loop (byCreatedAt db) db [] t = (db1, ev1, t1)" by (simp add: R_def)
    from evict_loop_shape[OF this] show ?thesis by auto
  next
    case False
    with sel show ?thesis by (intro exI[of _ 0]) (simp add: R_def)
  qed
  then have pre: "ev1 = take (length ev1) (byCreatedAt db)" by auto
  from a[unfolded unf sel] have "sessionId m = sid \<and> ev = ev1"
    by (auto simp: msg_def split: sum.splits)
  with pre show "sessionId m = sid" "ev = take (length ev) (byCreatedAt db)"
    by simp_all
next
  show "evicted_of (addMessage db r c sid uuid now) = evicted_of (addMessage db r c sid' uuid now)"
    by (simp add: addMessage_def Let_def evicted_of_def db_add_def split: prod.splits)
qed

text \<open>
  Adding a turn to session \<open>a\<close> evicts the only turn of session \<open>b\<close>.
\<close>

theorem eviction_session_counterexample:
  "evicted_of (do_call (run_calls empty_db [call_b]) call_a) = Some [msg_b]
   \<and> sessionId msg_b \<noteq> call_session call_a"
proof -
  have "evicted_of (do_call (run_calls empty_db [call_b]) call_a) = Some [msg_b]"
    unfolding do_call_a_after_b by (simp add: evicted_of_def)
  moreover have "sessionId msg_b \<noteq> call_session call_a"
    by (simp add: msg_b_def call_a_def)
  ultimately show ?thesis by (rule conjI)
qed

lemma do_call_big_result:
  "snd (do_call (run_calls empty_db [call_tiny]) call_big) = Inr (msg_big, [msg_tiny])"
  unfolding run_call_tiny
  by (simp add: do_call_def call_big_def addMessage_def Let_def getMeta_def
      tokens_filler ACTIVE_MEMORY_def EVICTION_TARGET_def db_add_def db_delete_def
      byCreatedAt_def id_of_first_def id_of_last_def msg_tiny_def msg_big_def)

lemma reads_after_tiny:
  "getMessages (run_calls empty_db [call_tiny]) (Some ''a'') = [msg_tiny]"
  "getRecentMessages (run_calls empty_db [call_tiny]) 32000 (Some ''a'') = [msg_tiny]"
  unfolding run_call_tiny
  by (simp_all add: getRecentMessages_def getMessages_def bySessionId_def msg_tiny_def)

theorem session_scoping_witness:
  "''a'' \<noteq> []
   \<and> getMessages (run_calls empty_db [call_tiny]) (Some ''a'') = [msg_tiny]
   \<and> getRecentMessages (run_calls empty_db [call_tiny]) 32000 (Some ''a'') = [msg_tiny]
   \<and> sessionId msg_tiny = ''a''
   \<and> snd (do_call (run_calls empty_db [call_tiny]) call_big) = Inr (msg_big, [msg_tiny])
   \<and> sessionId msg_big = ''a''
   \<and> [msg_tiny] = take (length [msg_tiny]) (byCreatedAt (run_calls empty_db [call_tiny]))"
proof -
  let ?db = "run_calls empty_db [call_tiny]"
  have ne: "''a'' \<noteq> []" by simp
  note sc = session_scoping[of "''a''" ?db 32000 Assistant "filler 2799986" "''a''" "''u5''" 5 "''a''"]
  from sc ne have "\<forall>m \<in> set (getRecentMessages ?db 32000 (Some ''a'')). sessionId m = ''a''"
    by blast
  then have s1: "sessionId msg_tiny = ''a''"
    unfolding reads_after_tiny by simp
  have dc: "do_call ?db call_big = addMessage ?db Assistant (filler 2799986) ''a'' ''u5'' 5"
    by (simp only: do_call_def call_big_def add_call.simps)
  obtain db' where r: "addMessage ?db Assistant (filler 2799986) ''a'' ''u5'' 5
      = (db', Inr (msg_big, [msg_tiny]))"
    using do_call_big_result[unfolded dc] by (metis prod.collapse)
  from sc r have s2: "sessionId msg_big = ''a''"
    and s3: "[msg_tiny] = take (length [msg_tiny]) (byCreatedAt ?db)"
    by blast+
  from ne reads_after_tiny s1 do_call_big_result s2 s3 show ?thesis
    by (intro conjI)
qed

section \<open>Properties of the text segmenter\<close>

lemma accept_slice_inv: "dedup_inv st \<Longrightarrow> dedup_inv (accept_slice sl st)"
  by (cases st) (auto simp: dedup_inv_def accept_slice_def Let_def)

lemma chunk_loop_inv:
  "dedup_inv st \<Longrightarrow> chunk_loop fuel clean maxLen overlap start st = Some chunks \<Longrightarrow>
     distinct (map normalizeForDedup (filter (\<lambda>c. length c \<ge> DEDUP_MIN_LENGTH) chunks))"
proof (induction fuel arbitrary: start st)
  case 0
  then show ?case by simp
next
  case (Suc fuel)
  show ?case
  proof (cases "start < length clean \<and> length (fst st) < MAX_CHUNKS")
    case False
    with Suc.prems show ?thesis by (auto simp: dedup_inv_def)
  next
    case True
    define end0 where "end0 = min (start + maxLen) (length clean)"
    define e where "e = (if end0 < length clean then findSentenceBoundary clean start end0 else end0)"
    define st' where "st' = accept_slice (trim (slice clean start e)) st"
    have inv': "dedup_inv st'"
      unfolding st'_def using Suc.prems(1) by (rule accept_slice_inv)
    have step: "chunk_loop (Suc fuel) clean maxLen overlap start st =
        (if e = length clean then Some (fst st')
         else chunk_loop fuel clean maxLen overlap (max 0 (e - overlap)) st')"
      unfolding st'_def e_def end0_def
      by (simp only: chunk_loop.simps True if_True Let_def simp_thms)
    from Suc.prems(2) have r:
      "(if e = length clean then Some (fst st')
        else chunk_loop fuel clean maxLen overlap (max 0 (e - overlap)) st') = Some chunks"
      by (simp only: step)
    show ?thesis
    proof (cases "e = length clean")
      case True
      with r inv' show ?thesis by (auto simp: dedup_inv_def)
    next
      case False
      with r have "chunk_loop fuel clean maxLen overlap (max 0 (e - overlap)) st' = Some chunks"
        by simp
      from Suc.IH[OF inv' this] show ?thesis .
    qed
  qed
qed

lemma findSentenceBoundary_lower: "end - 120 \<le> findSentenceBoundary text start end"
  by (auto simp: findSentenceBoundary_def Let_def split: option.splits)

lemma chunk_loop_returns:
  "overlap + 120 < maxLen \<Longrightarrow> length clean - start < fuel \<Longrightarrow>
     \<exists>chunks. chunk_loop fuel clean maxLen overlap start st = Some chunks"
proof (induction fuel arbitrary: start st)
  case 0
  then show ?case by simp
next
  case (Suc fuel)
  show ?case
  proof (cases "start < length clean \<and> length (fst st) < MAX_CHUNKS")
    case False
    then show ?thesis by auto
  next
    case True
    define end0 where "end0 = min (start + maxLen) (length clean)"
    define e where "e = (if end0 < length clean then findSentenceBoundary clean start end0 else end0)"
    define st' where "st' = accept_slice (trim (slice clean start e)) st"
    have step: "chunk_loop (Suc fuel) clean maxLen overlap start st =
        (if e = length clean then Some (fst st')
         else chunk_loop fuel clean maxLen overlap (max 0 (e - overlap)) st')"
      unfolding st'_def e_def end0_def
      by (simp only: chunk_loop.simps True if_True Let_def simp_thms)
    show ?thesis
    proof (cases "e = length clean")
      case True
      with step show ?thesis by simp
    next
      case False
      have "end0 \<le> length clean" by (simp add: end0_def)
      then have lt: "end0 < length clean"
        using False by (auto simp: e_def split: if_splits)
      then have e0: "end0 = start + maxLen" by (simp add: end0_def)
      have "end0 - 120 \<le> e"
        using lt by (simp add: e_def findSentenceBoundary_lower)
      then have adv: "start < e - overlap"
        using e0 Suc.prems(1) by linarith
      then have "length clean - max 0 (e - overlap) < fuel"
        using Suc.prems(2) True by auto
      from Suc.IH[OF Suc.prems(1) this] step False show ?thesis by simp
    qed
  qed
qed

lemma chunkText_returns:
  assumes "overlap + 120 < maxLen"
  shows "\<exists>res. chunkText (Suc (length (normalizeText text))) text maxLen overlap = Some res"
proof -
  have "length (normalizeText text) - 0 < Suc (length (normalizeText text))" by simp
  from chunk_loop_returns[OF assms this, of "([], [])"] show ?thesis
    by (cases "normalizeText text = []")
       (simp_all add: chunkText_def Let_def del: chunk_loop.simps)
qed

text \<open>
  Claim C4.  Among the chunks returned by one call of \<^verbatim>\<open>chunkText\<close>, those of at least 80
  characters have pairwise different normalized texts (whitespace runs collapsed to one
  space, trimmed, lowercased); a non-empty slice shorter than 80 characters is emitted
  without consulting or changing the set of seen keys.  With \<^verbatim>\<open>maxLen\<close> more than 120
  above \<^verbatim>\<open>overlap\<close>, and so with both calibration profiles of \<^verbatim>\<open>getChunkConfig\<close>, the
  call returns.
\<close>

theorem chunkText_dedup:
  "(chunkText fuel text maxLen overlap = Some chunks \<longrightarrow>
      distinct (map normalizeForDedup (filter (\<lambda>c. length c \<ge> DEDUP_MIN_LENGTH) chunks)))
   \<and> (sl \<noteq> [] \<and> length sl < DEDUP_MIN_LENGTH \<longrightarrow>
        accept_slice sl (cs, seen) = (cs @ [sl], seen))
   \<and> (overlap + 120 < maxLen \<longrightarrow>
        (\<exists>res. chunkText (Suc (length (normalizeText text))) text maxLen overlap = Some res))
   \<and> (\<exists>res. chunkText (Suc (length (normalizeText text))) text
                (fst (getChunkConfig t)) (snd (getChunkConfig t)) = Some res)"
proof (intro conjI impI)
  assume a: "chunkText fuel text maxLen overlap = Some chunks"
  show "distinct (map normalizeForDedup (filter (\<lambda>c. length c \<ge> DEDUP_MIN_LENGTH) chunks))"
  proof (cases "normalizeText text = []")
    case True
    with a show ?thesis by (simp add: chunkText_def)
  next
    case False
    with a have "chunk_loop fuel (normalizeText text) maxLen overlap 0 ([], []) = Some chunks"
      by (simp add: chunkText_def Let_def)
    moreover have "dedup_inv ([], [])" by (simp add: dedup_inv_def)
    ultimately show ?thesis by (rule chunk_loop_inv[rotated])
  qed
next
  assume "sl \<noteq> [] \<and> length sl < DEDUP_MIN_LENGTH"
  then show "accept_slice sl (cs, seen) = (cs @ [sl], seen)"
    by (simp add: accept_slice_def)
next
  assume b: "overlap + 120 < maxLen"
  then show "\<exists>res. chunkText (Suc (length (normalizeText text))) text maxLen overlap = Some res"
    by (rule chunkText_returns)
next
  have "snd (getChunkConfig t) + 120 < fst (getChunkConfig t)"
    by (simp add: getChunkConfig_def SHORT_CHUNK_SIZE_def DEFAULT_CHUNK_SIZE_def
        SHORT_OVERLAP_def DEFAULT_OVERLAP_def)
  then show "\<exists>res. chunkText (Suc (length (normalizeText text))) text
                (fst (getChunkConfig t)) (snd (getChunkConfig t)) = Some res"
    by (rule chunkText_returns)
qed

lemma chunk_short_repeat:
  "chunkText 5 (replicate 100 CHR ''a'') 50 0 = Some [replicate 50 CHR ''a'', replicate 50 CHR ''a'']"
  by code_simp









lemma witness_dedup: "chunkText 261 (replicate 260 CHR ''a'') 130 0 = Some [replicate 130 CHR ''a'']"
  by code_simp

theorem chunkText_dedup_witness:
  "chunkText 261 (replicate 260 CHR ''a'') 130 0 = Some [replicate 130 CHR ''a'']
   \<and> distinct (map normalizeForDedup
         (filter (\<lambda>c. length c \<ge> DEDUP_MIN_LENGTH) [replicate 130 CHR ''a'']))
   \<and> ''ab'' \<noteq> [] \<and> length ''ab'' < DEDUP_MIN_LENGTH
   \<and> accept_slice ''ab'' ([], []) = ([''ab''], [])
   \<and> chunkText 5 (replicate 100 CHR ''a'') 50 0
        = Some [replicate 50 CHR ''a'', replicate 50 CHR ''a'']
   \<and> 0 + 120 < (130::nat)
   \<and> (\<exists>res. chunkText (Suc (length (normalizeText (replicate 260 CHR ''a''))))
                (replicate 260 CHR ''a'') 130 0 = Some res)"
  using chunkText_dedup[of 261 "replicate 260 CHR ''a''" 130 0 "[replicate 130 CHR ''a'']"
      "''ab''" "[]" "[]"] witness_dedup chunk_short_repeat
  by (simp add: DEDUP_MIN_LENGTH_def)




section \<open>Properties of the vector worker\<close>

lemma unique_keys_keys: "unique_keys db \<longleftrightarrow> distinct (keys db)"
  by (simp add: unique_keys_def keys_def)

lemma source_rows_keys:
  "length (source_rows db u s) = length (filter (\<lambda>k. fst k = u \<and> fst (snd k) = s) (keys db))"
  by (simp add: source_rows_def keys_def filter_map o_def)

lemma keys_insert_or_ignore:
  "keys (insert_or_ignore db u s i t st)
     = (if (u, s, i) \<in> set (keys db) then keys db else keys db @ [(u, s, i)])"
  by (auto simp: insert_or_ignore_def keys_def same_key_def image_iff)

lemma keys_update_row:
  assumes "\<And>r. userId (f r) = userId r \<and> sourceName (f r) = sourceName r
        \<and> chunkIndex (f r) = chunkIndex r"
  shows "keys (update_row db i f) = keys db"
  using assms by (simp add: update_row_def keys_def)

lemma training_chunks_vec0Upsert:
  "training_chunks (fst (vec0Upsert db i bs)) = training_chunks db"
  by (auto simp: vec0Upsert_def vec_insert_def vec_delete_def vec0Disable_def
      split: option.splits if_splits)

lemma training_chunks_idbPutChunk: "training_chunks (idbPutChunk db c) = training_chunks db"
  by (simp add: idbPutChunk_def split: option.splits)

lemma keys_process_row: "keys (process_row db u s row f32) = keys db"
proof -
  have a: "\<And>d i bs. keys (fst (vec0Upsert d i bs)) = keys d"
    by (simp add: keys_def training_chunks_vec0Upsert)
  have b: "\<And>d c. keys (idbPutChunk d c) = keys d"
    by (simp add: keys_def training_chunks_idbPutChunk)
  show ?thesis
    by (simp add: process_row_def Let_def a b keys_update_row split: option.splits)
qed

lemma keys_process_rows: "keys (fst (process_rows db u s rows outs)) = keys db"
  by (induction db u s rows outs rule: process_rows.induct) (simp_all add: keys_process_row)

lemma keys_init_pending_aux:
  "keys (fold (\<lambda>(i, c) d. insert_or_ignore d u s i c st) (enumerate n chunks) db)
     = keys db @ filter (\<lambda>k. k \<notin> set (keys db)) (map (\<lambda>i. (u, s, i)) [n ..< n + length chunks])"
proof (induction chunks arbitrary: n db)
  case Nil
  then show ?case by simp
next
  case (Cons c chunks)
  let ?db' = "insert_or_ignore db u s n c st"
  define L where "L = map (\<lambda>i. (u, s, i)) [Suc n ..< Suc n + length chunks]"
  have up: "map (\<lambda>i. (u, s, i)) [n ..< n + length (c # chunks)] = (u, s, n) # L"
    using upt_conv_Cons[of n "Suc n + length chunks"] by (simp add: L_def del: upt_Suc)
  have notin: "(u, s, n) \<notin> set L"
    by (auto simp: L_def)
  have step: "keys (fold (\<lambda>(i, c) d. insert_or_ignore d u s i c st) (enumerate n (c # chunks)) db)
      = keys ?db' @ filter (\<lambda>k. k \<notin> set (keys ?db')) L"
    using Cons.IH[of "Suc n" ?db'] by (simp add: L_def)
  show ?case
  proof (cases "(u, s, n) \<in> set (keys db)")
    case True
    then have "keys ?db' = keys db" by (simp add: keys_insert_or_ignore)
    with True show ?thesis
      unfolding step up by simp
  next
    case False
    then have k: "keys ?db' = keys db @ [(u, s, n)]" by (simp add: keys_insert_or_ignore)
    have "filter (\<lambda>k. k \<notin> set (keys db @ [(u, s, n)])) L = filter (\<lambda>k. k \<notin> set (keys db)) L"
      using notin by (intro filter_cong) auto
    with False k show ?thesis
      unfolding step up by simp
  qed
qed

lemma keys_init_pending:
  "keys (init_pending db u s chunks)
     = keys db @ filter (\<lambda>k. k \<notin> set (keys db)) (map (\<lambda>i. (u, s, i)) [0 ..< length chunks])"
  using keys_init_pending_aux[of u s "''pending''" 0 chunks db]
  by (simp add: init_pending_def)

lemma unique_init_pending: "distinct (keys db) \<Longrightarrow> distinct (keys (init_pending db u s chunks))"
  by (auto simp: keys_init_pending distinct_map inj_on_def)

lemma init_pending_again:
  assumes "(\<lambda>i. (u, s, i)) ` {0 ..< length chunks} \<subseteq> set (keys db)"
  shows "keys (init_pending db u s chunks) = keys db"
proof -
  have "filter (\<lambda>k. k \<notin> set (keys db)) (map (\<lambda>i. (u, s, i)) [0 ..< length chunks]) = []"
    using assms by (auto simp: filter_empty_conv)
  then show ?thesis by (simp add: keys_init_pending)
qed

lemma keys_clear:
  "keys (idbDeleteUser (delete_user_rows db u) u) = filter (\<lambda>k. fst k \<noteq> u) (keys db)"
  by (simp add: idbDeleteUser_def delete_user_rows_def keys_def filter_map o_def
      split: option.splits)

lemma count_fresh:
  assumes "\<forall>k \<in> set ks. \<not> (fst k = u \<and> fst (snd k) = s)"
  shows "length (filter (\<lambda>k. fst k = u \<and> fst (snd k) = s)
           (ks @ filter (\<lambda>k. k \<notin> set ks) (map (\<lambda>i. (u, s, i)) [0 ..< n]))) = n"
proof -
  have a: "filter (\<lambda>k. fst k = u \<and> fst (snd k) = s) ks = []"
    using assms by (auto simp: filter_empty_conv)
  have b: "filter (\<lambda>k. k \<notin> set ks) (map (\<lambda>i. (u, s, i)) [0 ..< n]) = map (\<lambda>i. (u, s, i)) [0 ..< n]"
    using assms by (auto simp: filter_id_conv)
  have c: "filter (\<lambda>k. fst k = u \<and> fst (snd k) = s) (map (\<lambda>i. (u, s, i)) [0 ..< n])
      = map (\<lambda>i. (u, s, i)) [0 ..< n]"
    by (auto simp: filter_id_conv)
  show ?thesis by (simp add: a b c)
qed


lemma window_loop_returns:
  "overlap < maxLen \<Longrightarrow> nat (int (length sect) - start) < fuel \<Longrightarrow>
     \<exists>cs. window_loop fuel sect maxLen overlap start chunks = Some cs"
proof (induction fuel arbitrary: start chunks)
  case 0
  then show ?case by simp
next
  case (Suc fuel)
  show ?case
  proof (cases "start < int (length sect)")
    case False
    then show ?thesis by simp
  next
    case True
    let ?start' = "start + maxLen - overlap"
    let ?chunks' = "chunks @ [trim (js_slice sect start (start + maxLen))]"
    show ?thesis
    proof (cases "?start' \<ge> int (length sect) - overlap")
      case True
      with \<open>start < int (length sect)\<close> show ?thesis by (simp add: Let_def)
    next
      case False
      have "nat (int (length sect) - ?start') < fuel"
        using Suc.prems True by linarith
      from Suc.IH[OF Suc.prems(1) this, of ?chunks'] True False show ?thesis
        by (simp add: Let_def)
    qed
  qed
qed

lemma chunk_sections_returns:
  "overlap < maxLen \<Longrightarrow> \<exists>cs. chunk_sections sects maxLen overlap = Some cs"
proof (induction sects)
  case Nil
  then show ?case by simp
next
  case (Cons sect rest)
  from Cons obtain cs where r: "chunk_sections rest maxLen overlap = Some cs" by blast
  have "nat (int (length sect) - 0) < Suc (length sect)" by simp
  from window_loop_returns[OF Cons.prems this, of "[]"]
  obtain ws where w: "window_loop (Suc (length sect)) sect maxLen overlap 0 [] = Some ws"
    by blast
  show ?case
    using r w by (cases "int (length sect) \<le> maxLen") (simp_all del: window_loop.simps)
qed

lemma chunkText_worker_returns: "\<exists>chunks. chunkText_worker text 1000 200 = Some chunks"
  unfolding chunkText_worker_def by (rule chunk_sections_returns) simp

lemma prepare_keys:
  assumes "chunkText_worker text 1000 200 = Some chunks"
  shows "\<exists>db1 r. prepareWithProgress db u text s ce ok outs = Some (db1, r)
     \<and> keys db1 = keys (init_pending
          (if ce then idbDeleteUser (delete_user_rows db u) u else db) u s chunks)"
proof -
  let ?db2 = "init_pending (if ce then idbDeleteUser (delete_user_rows db u) u else db) u s chunks"
  show ?thesis
  proof (cases ok)
    case False
    with assms show ?thesis by (simp add: prepareWithProgress_def Let_def)
  next
    case True
    obtain d r where pr: "process_rows ?db2 u s (select_pending ?db2 u s) outs = (d, r)"
      by (cases "process_rows ?db2 u s (select_pending ?db2 u s) outs")
    then have "keys d = keys ?db2"
      using keys_process_rows[of ?db2 u s "select_pending ?db2 u s" outs] by simp
    with pr True assms show ?thesis by (simp add: prepareWithProgress_def Let_def)
  qed
qed

lemma prepare_ingest_keys:
  assumes "chunkText_worker text 1000 200 = Some chunks"
  shows "\<exists>db1 r. prepareWithProgress db u text s ce ok outs = Some (db1, r)
     \<and> keys db1 = ingest_keys ce u s (length chunks) (keys db)"
proof -
  from prepare_keys[OF assms, of db u s ce ok outs] obtain db1 r where
    p: "prepareWithProgress db u text s ce ok outs = Some (db1, r)"
    and k: "keys db1 = keys (init_pending
          (if ce then idbDeleteUser (delete_user_rows db u) u else db) u s chunks)"
    by blast
  have "keys db1 = ingest_keys ce u s (length chunks) (keys db)"
    unfolding k keys_init_pending by (simp add: ingest_keys_def keys_clear Let_def)
  with p show ?thesis by blast
qed

lemma distinct_ingest_keys: "distinct K \<Longrightarrow> distinct (ingest_keys ce u s n K)"
  by (auto simp: ingest_keys_def Let_def distinct_map inj_on_def)

lemma ingest_keys_covers: "(u, s, i) \<in> set (ingest_keys ce u s n K)" if "i < n"
  using that by (auto simp: ingest_keys_def Let_def)

lemma count_ingest_clear: "count_source u s (ingest_keys True u s n K) = n"
  unfolding ingest_keys_def count_source_def Let_def if_True
  by (rule count_fresh) auto

lemma count_ingest_fresh:
  "count_source u s K = 0 \<Longrightarrow> count_source u s (ingest_keys False u s n K) = n"
  unfolding ingest_keys_def count_source_def Let_def if_False
  by (rule count_fresh) (auto simp: filter_empty_conv)

lemma ingest_keys_again:
  "ingest_keys False u s n (ingest_keys ce u s n K) = ingest_keys ce u s n K"
proof -
  let ?K1 = "ingest_keys ce u s n K"
  have "filter (\<lambda>k. k \<notin> set ?K1) (map (\<lambda>i. (u, s, i)) [0 ..< n]) = []"
    by (auto simp: filter_empty_conv ingest_keys_covers)
  then show ?thesis
    by (simp add: ingest_keys_def[of False] Let_def)
qed

lemma count_ingest_twice:
  "count_source u s (ingest_keys ce u s n (ingest_keys ce u s n K))
     = count_source u s (ingest_keys ce u s n K)"
proof (cases ce)
  case True
  then show ?thesis by (simp add: count_ingest_clear)
next
  case False
  then show ?thesis by (simp add: ingest_keys_again)
qed

text \<open>
  Claim C3.  The table keeps at most one row per \<^verbatim>\<open>(userId, sourceName, chunkIndex)\<close>.  Two
  ingestions of the same text under the same owner and source name both return, and the
  number of rows of that source after the second equals the number after the first; when
  the first ingestion clears the owner's rows or finds no row of that source, this number is
  the chunk count of one ingestion.
\<close>

theorem reingest_idempotent:
  assumes "unique_keys db"
  shows "\<exists>chunks db1 r1 db2 r2.
      chunkText_worker text 1000 200 = Some chunks
    \<and> prepareWithProgress db u text s ce ok1 outs1 = Some (db1, r1)
    \<and> prepareWithProgress db1 u text s ce ok2 outs2 = Some (db2, r2)
    \<and> unique_keys db1 \<and> unique_keys db2
    \<and> length (source_rows db2 u s) = length (source_rows db1 u s)
    \<and> (ce \<or> source_rows db u s = [] \<longrightarrow>
          length (source_rows db1 u s) = length chunks
        \<and> length (source_rows db2 u s) = length chunks)"
proof -
  obtain chunks where c: "chunkText_worker text 1000 200 = Some chunks"
    using chunkText_worker_returns by blast
  from prepare_ingest_keys[OF c, of db u s ce ok1 outs1] obtain db1 r1 where
    p1: "prepareWithProgress db u text s ce ok1 outs1 = Some (db1, r1)"
    and k1: "keys db1 = ingest_keys ce u s (length chunks) (keys db)"
    by blast
  from prepare_ingest_keys[OF c, of db1 u s ce ok2 outs2] obtain db2 r2 where
    p2: "prepareWithProgress db1 u text s ce ok2 outs2 = Some (db2, r2)"
    and k2: "keys db2 = ingest_keys ce u s (length chunks) (keys db1)"
    by blast
  have cnt: "\<And>d. length (source_rows d u s) = count_source u s (keys d)"
    by (simp add: source_rows_keys count_source_def)
  have u1: "unique_keys db1"
    using assms by (simp add: unique_keys_keys k1 distinct_ingest_keys)
  have u2: "unique_keys db2"
    using u1 by (simp add: unique_keys_keys k2 distinct_ingest_keys)
  have same: "length (source_rows db2 u s) = length (source_rows db1 u s)"
    by (simp add: cnt k2 k1 count_ingest_twice)
  have first: "length (source_rows db1 u s) = length chunks" if "ce \<or> source_rows db u s = []"
  proof (cases ce)
    case True
    then show ?thesis by (simp add: cnt k1 count_ingest_clear)
  next
    case False
    with that have "count_source u s (keys db) = 0"
      using cnt[of db] by simp
    with False show ?thesis by (simp add: cnt k1 count_ingest_fresh)
  qed
  from c p1 p2 u1 u2 same first show ?thesis
    by (intro exI[of _ chunks] exI[of _ db1] exI[of _ r1] exI[of _ db2] exI[of _ r2]) simp
qed

lemma demo_chunks: "chunkText_worker demo_text 1000 200 = Some [''## A\<newline>x'', ''## B\<newline>y'']"
  by code_simp

theorem reingest_idempotent_witness:
  "unique_keys fresh_worker_db
   \<and> source_rows fresh_worker_db ''u'' ''doc'' = []
   \<and> chunkText_worker demo_text 1000 200 = Some [''## A\<newline>x'', ''## B\<newline>y'']
   \<and> (\<exists>db1 r1 db2 r2.
         prepareWithProgress fresh_worker_db ''u'' demo_text ''doc'' False True
           [VectorData None, VectorData None] = Some (db1, r1)
       \<and> prepareWithProgress db1 ''u'' demo_text ''doc'' False True [] = Some (db2, r2)
       \<and> unique_keys db2
       \<and> length (source_rows db1 ''u'' ''doc'') = 2
       \<and> length (source_rows db2 ''u'' ''doc'') = 2)"
proof -
  have u: "unique_keys fresh_worker_db"
    by (simp add: unique_keys_def fresh_worker_db_def)
  have e: "source_rows fresh_worker_db ''u'' ''doc'' = []"
    by (simp add: source_rows_def fresh_worker_db_def)
  from reingest_idempotent[OF u, of demo_text "''u''" "''doc''" False True
      "[VectorData None, VectorData None]" True "[]"]
  obtain chunks db1 r1 db2 r2 where
    c: "chunkText_worker demo_text 1000 200 = Some chunks"
    and p1: "prepareWithProgress fresh_worker_db ''u'' demo_text ''doc'' False True
           [VectorData None, VectorData None] = Some (db1, r1)"
    and p2: "prepareWithProgress db1 ''u'' demo_text ''doc'' False True [] = Some (db2, r2)"
    and u2: "unique_keys db2"
    and n: "False \<or> source_rows fresh_worker_db ''u'' ''doc'' = [] \<longrightarrow>
          length (source_rows db1 ''u'' ''doc'') = length chunks
        \<and> length (source_rows db2 ''u'' ''doc'') = length chunks"
    by blast
  from c[unfolded demo_chunks] have "length chunks = 2" by auto
  with n e have "length (source_rows db1 ''u'' ''doc'') = 2"
    "length (source_rows db2 ''u'' ''doc'') = 2" by simp_all
  with u e demo_chunks p1 p2 u2 show ?thesis by blast
qed

lemma length_float32_bytes [simp]: "length (float32_bytes w) = 4"
  by (simp add: float32_bytes_def)


















text \<open>
  Claim C5, on the code.  \<^verbatim>\<open>searchVectors\<close> never changes the state of the worker.  When the
  query on the index throws, it posts an empty result and \<^verbatim>\<open>vec0Available\<close> stays true, so
  the next search takes the index path again.  The insert path does disable the index on a
  failure (\<^verbatim>\<open>vec0Upsert\<close> on a missing table).
\<close>

theorem search_failure_keeps_index:
  "fst (searchVectors db v q) = db
   \<and> searchVectors fresh_worker_db zero_vector (Inl ''query failed'')
       = (fresh_worker_db, IndexQueryFailed, [])
   \<and> vec0Available (fst (searchVectors fresh_worker_db zero_vector (Inl ''query failed'')))
   \<and> searchVectors (fst (searchVectors fresh_worker_db zero_vector (Inl ''query failed'')))
         zero_vector (Inr [2, 1])
       = (fresh_worker_db, IndexUsed, [2, 1])
   \<and> \<not> vec0Available (fst (vec0Upsert (fresh_worker_db\<lparr>vectors_exists := False\<rparr>) 1 bs))"
proof -
  have a: "fst (searchVectors db v q) = db"
    by (simp add: searchVectors_def split: option.splits sum.splits)
  have b: "searchVectors fresh_worker_db zero_vector (Inl ''query failed'')
       = (fresh_worker_db, IndexQueryFailed, [])"
    by (simp add: searchVectors_def fresh_worker_db_def zero_vector_def expectedBytes_def)
  have c: "searchVectors fresh_worker_db zero_vector (Inr [2, 1])
       = (fresh_worker_db, IndexUsed, [2, 1])"
    by (simp add: searchVectors_def fresh_worker_db_def zero_vector_def expectedBytes_def)
  have d: "vec0Available fresh_worker_db" by (simp add: fresh_worker_db_def)
  have e: "\<not> vec0Available (fst (vec0Upsert (fresh_worker_db\<lparr>vectors_exists := False\<rparr>) 1 bs))"
    by (simp add: vec0Upsert_def vec_insert_def vec_delete_def vec0Disable_def
        fresh_worker_db_def)
  show ?thesis
    unfolding b fst_conv using a c d e by simp
qed

section \<open>Properties of the lazily initialised handles\<close>

lemma sq_step_inv: "sq_inv m \<Longrightarrow> sq_inv (fst (sq_step m ev))"
proof (cases ev)
  case (CallGetSQLite c)
  assume "sq_inv m"
  then show ?thesis
    unfolding CallGetSQLite
    by (auto simp: sq_inv_def split: option.splits promise.splits)
next
  case (InitFulfilled h)
  assume "sq_inv m"
  then show ?thesis
    unfolding InitFulfilled by (auto simp: sq_inv_def)
next
  case (InitRejected e)
  assume "sq_inv m"
  then show ?thesis
    unfolding InitRejected by (auto simp: sq_inv_def)
qed

lemma sq_run_inv: "sq_inv m \<Longrightarrow> sq_inv (sq_run m evs)"
  by (induction evs arbitrary: m) (simp_all add: sq_step_inv)

lemma sq_inv_initial: "sq_inv sq_initial"
  by (simp add: sq_inv_def sq_initial_def)

text \<open>
  Claim C10.  In every state the worker can reach, at most one initialisation is in flight
  and at most one has been fulfilled.  While the initialisation is pending, a call of
  \<^verbatim>\<open>getSQLite\<close> starts nothing and joins the callers of the memoized promise, who all get
  the same handle when it is fulfilled.  When it is rejected, all of them get the error,
  \<^verbatim>\<open>dbPromise\<close> is cleared, and the next call starts the initialisation again.
\<close>

theorem getSQLite_single_flight:
  "inits_started (sq_run sq_initial evs)
     = inits_fulfilled (sq_run sq_initial evs) + inits_rejected (sq_run sq_initial evs)
       + (if dbPromise (sq_run sq_initial evs) = Some Pending then 1 else 0)
   \<and> inits_fulfilled (sq_run sq_initial evs) \<le> 1
   \<and> (dbPromise m = Some Pending \<and> db_handle m = None \<longrightarrow>
         sq_step m (CallGetSQLite c) = (m\<lparr>db_waiters := db_waiters m @ [c]\<rparr>, [])
       \<and> snd (sq_step m (InitFulfilled h)) = map (\<lambda>c. ReplyDb c h) (db_waiters m)
       \<and> snd (sq_step m (InitRejected e)) = map (\<lambda>c. ReplyError c e) (db_waiters m)
       \<and> dbPromise (fst (sq_step m (InitRejected e))) = None
       \<and> db_handle (fst (sq_step m (InitRejected e))) = None
       \<and> inits_started (fst (sq_step (fst (sq_step m (InitRejected e))) (CallGetSQLite c)))
           = Suc (inits_started m)
       \<and> dbPromise (fst (sq_step (fst (sq_step m (InitRejected e))) (CallGetSQLite c)))
           = Some Pending)"
proof -
  have "sq_inv (sq_run sq_initial evs)"
    using sq_inv_initial by (rule sq_run_inv)
  then have a: "inits_started (sq_run sq_initial evs)
     = inits_fulfilled (sq_run sq_initial evs) + inits_rejected (sq_run sq_initial evs)
       + (if dbPromise (sq_run sq_initial evs) = Some Pending then 1 else 0)"
    and b: "inits_fulfilled (sq_run sq_initial evs) \<le> 1"
    by (simp_all add: sq_inv_def)
  have c: "dbPromise m = Some Pending \<and> db_handle m = None \<longrightarrow>
         sq_step m (CallGetSQLite c) = (m\<lparr>db_waiters := db_waiters m @ [c]\<rparr>, [])
       \<and> snd (sq_step m (InitFulfilled h)) = map (\<lambda>c. ReplyDb c h) (db_waiters m)
       \<and> snd (sq_step m (InitRejected e)) = map (\<lambda>c. ReplyError c e) (db_waiters m)
       \<and> dbPromise (fst (sq_step m (InitRejected e))) = None
       \<and> db_handle (fst (sq_step m (InitRejected e))) = None
       \<and> inits_started (fst (sq_step (fst (sq_step m (InitRejected e))) (CallGetSQLite c)))
           = Suc (inits_started m)
       \<and> dbPromise (fst (sq_step (fst (sq_step m (InitRejected e))) (CallGetSQLite c)))
           = Some Pending"
    by simp
  from a b c show ?thesis by (intro conjI)
qed

lemma sq_two_callers:
  "sq_run sq_initial [CallGetSQLite 1, CallGetSQLite 2]
     = \<lparr>db_handle = None, dbPromise = Some Pending, db_waiters = [1, 2],
        inits_started = 1, inits_fulfilled = 0, inits_rejected = 0\<rparr>"
  by (simp add: sq_initial_def)

lemma sq_retry_run:
  "sq_run sq_initial [CallGetSQLite 1, CallGetSQLite 2, InitRejected ''io'', CallGetSQLite 3]
     = fst (sq_step (fst (sq_step
         \<lparr>db_handle = None, dbPromise = Some Pending, db_waiters = [1, 2],
          inits_started = 1, inits_fulfilled = 0, inits_rejected = 0\<rparr>
         (InitRejected ''io''))) (CallGetSQLite 3))"
  by (simp add: sq_initial_def)

theorem getSQLite_single_flight_witness:
  "dbPromise (sq_run sq_initial [CallGetSQLite 1, CallGetSQLite 2]) = Some Pending
   \<and> db_handle (sq_run sq_initial [CallGetSQLite 1, CallGetSQLite 2]) = None
   \<and> inits_started (sq_run sq_initial [CallGetSQLite 1, CallGetSQLite 2]) = 1
   \<and> db_waiters (fst (sq_step (sq_run sq_initial [CallGetSQLite 1, CallGetSQLite 2])
                        (CallGetSQLite 3))) = [1, 2, 3]
   \<and> snd (sq_step (sq_run sq_initial [CallGetSQLite 1, CallGetSQLite 2]) (InitFulfilled 7))
       = [ReplyDb 1 7, ReplyDb 2 7]
   \<and> snd (sq_step (sq_run sq_initial [CallGetSQLite 1, CallGetSQLite 2]) (InitRejected ''io''))
       = [ReplyError 1 ''io'', ReplyError 2 ''io'']
   \<and> inits_started (sq_run sq_initial
         [CallGetSQLite 1, CallGetSQLite 2, InitRejected ''io'', CallGetSQLite 3]) = 2"
proof -
  define m where "m = \<lparr>db_handle = None, dbPromise = Some Pending, db_waiters = [1, 2],
          inits_started = 1, inits_fulfilled = 0, inits_rejected = 0\<rparr>"
  have p: "dbPromise m = Some Pending \<and> db_handle m = None"
    and w: "db_waiters m = [1, 2]" and i: "inits_started m = 1"
    by (simp_all add: m_def)
  note g = getSQLite_single_flight[of "[]" m 3 7 "''io''"]
  from g p have s: "sq_step m (CallGetSQLite 3) = (m\<lparr>db_waiters := db_waiters m @ [3]\<rparr>, [])"
    and f: "snd (sq_step m (InitFulfilled 7)) = map (\<lambda>c. ReplyDb c 7) (db_waiters m)"
    and r: "snd (sq_step m (InitRejected ''io'')) = map (\<lambda>c. ReplyError c ''io'') (db_waiters m)"
    and n: "inits_started (fst (sq_step (fst (sq_step m (InitRejected ''io''))) (CallGetSQLite 3)))
           = Suc (inits_started m)"
    by blast+
  have 1: "db_waiters (fst (sq_step m (CallGetSQLite 3))) = [1, 2, 3]"
    by (simp only: s fst_conv) (simp add: w)
  have 2: "snd (sq_step m (InitFulfilled 7)) = [ReplyDb 1 7, ReplyDb 2 7]"
    by (simp only: f w) simp
  have 3: "snd (sq_step m (InitRejected ''io'')) = [ReplyError 1 ''io'', ReplyError 2 ''io'']"
    by (simp only: r w) simp
  have 4: "inits_started (fst (sq_step (fst (sq_step m (InitRejected ''io''))) (CallGetSQLite 3))) = 2"
    by (simp only: n i)
  show ?thesis
    unfolding sq_two_callers sq_retry_run m_def[symmetric]
    using p i 1 2 3 4 by simp
qed

text \<open>
  Claim C6, as amended.  When loading the embedding model fails, the failure reaches the
  caller (in the training module as the error shown to the user, which asks to reload the
  page; in the worker as the message of the error), and the rejected promise stays in
  \<^verbatim>\<open>embedderPromise\<close>: every later call of \<^verbatim>\<open>getEmbedder\<close> returns the same failure and does
  not start a load.  Only a failure of the WebGPU probe of the training module, which comes
  before the promise is stored, leaves nothing behind and is tried again by the next call.
\<close>

theorem getEmbedder_failure_cached:
  "(embedderPromise m = None \<longrightarrow>
      getEmbedder_worker m (Inl e)
        = (m\<lparr>embedderPromise := Some (Inl e), loads_started := Suc (loads_started m)\<rparr>, Inl e)
    \<and> getEmbedder_training m (Inr gpu) (Inl e)
        = (m\<lparr>embedderPromise := Some (Inl e), loads_started := Suc (loads_started m)\<rparr>, Inl e)
    \<and> load_model_for_training m (Inr gpu) (Inl e)
        = (m\<lparr>embedderPromise := Some (Inl e), loads_started := Suc (loads_started m)\<rparr>,
           Inl ModelLoadFailedReloadPage)
    \<and> getEmbedder_training m (Inl e) load = (m, Inl e))
   \<and> (embedderPromise m = Some (Inl e) \<longrightarrow>
        getEmbedder_worker m load = (m, Inl e)
      \<and> getEmbedder_training m probe load = (m, Inl e)
      \<and> load_model_for_training m probe load = (m, Inl ModelLoadFailedReloadPage))"
  by (simp add: getEmbedder_worker_def getEmbedder_training_def load_model_for_training_def)

theorem getEmbedder_failure_cached_witness:
  "embedderPromise embedder_initial = None
   \<and> getEmbedder_worker embedder_initial (Inl ''fetch failed'')
       = (\<lparr>embedderPromise = Some (Inl ''fetch failed''), loads_started = 1\<rparr>, Inl ''fetch failed'')
   \<and> embedderPromise \<lparr>embedderPromise = Some (Inl ''fetch failed''), loads_started = 1\<rparr>
       = Some (Inl ''fetch failed'')
   \<and> getEmbedder_worker \<lparr>embedderPromise = Some (Inl ''fetch failed''), loads_started = 1\<rparr> (Inr 7)
       = (\<lparr>embedderPromise = Some (Inl ''fetch failed''), loads_started = 1\<rparr>, Inl ''fetch failed'')"
  using getEmbedder_failure_cached[of embedder_initial "''fetch failed''" True "Inr 7" "Inr True"]
    getEmbedder_failure_cached[of "\<lparr>embedderPromise = Some (Inl ''fetch failed''), loads_started = 1\<rparr>"
      "''fetch failed''" True "Inr 7" "Inr True"]
  by (simp add: embedder_initial_def)

text \<open>
  Claim C6 as stated: after a failed load, a second call for which the load would succeed
  returns the earlier failure, and no second load is started, in the worker and in the
  training module.
\<close>

theorem getEmbedder_retry_counterexample:
  "snd (getEmbedder_worker (fst (getEmbedder_worker embedder_initial (Inl ''fetch failed'')))
          (Inr 7)) = Inl ''fetch failed''
   \<and> loads_started (fst (getEmbedder_worker
         (fst (getEmbedder_worker embedder_initial (Inl ''fetch failed''))) (Inr 7))) = 1
   \<and> snd (getEmbedder_training
         (fst (getEmbedder_training embedder_initial (Inr True) (Inl ''fetch failed'')))
          (Inr True) (Inr 7)) = Inl ''fetch failed''
   \<and> loads_started (fst (getEmbedder_training
         (fst (getEmbedder_training embedder_initial (Inr True) (Inl ''fetch failed'')))
          (Inr True) (Inr 7))) = 1"
  by (simp add: getEmbedder_worker_def getEmbedder_training_def embedder_initial_def)

section \<open>Properties of the session orchestrator\<close>

lemma addMessage_fresh:
  assumes "uuid \<notin> msg_id ` set (messages db)"
  shows "\<exists>db' m ev. addMessage db r c sid uuid now = (db', Inr (m, ev))
     \<and> m \<in> set (messages db') \<and> msg_role m = r \<and> content m = c \<and> sessionId m = sid"
proof -
  define msg where "msg = \<lparr>msg_id = uuid, msg_role = r, content = c, createdAt = now,
                     tokenCount = estimateMessageTokens c, sessionId = sid\<rparr>"
  define t where "t = tokenTotal (getMeta db) + tokenCount msg"
  define R where
    "R = (if t > ACTIVE_MEMORY then evict_loop (byCreatedAt db) db [] t else (db, [], t))"
  have unf: "addMessage db r c sid uuid now =
      (case R of (db1, evicted, total1) \<Rightarrow>
         (case db_add db1 msg of
            Inl e \<Rightarrow> (db1, Inl e)
          | Inr db2 \<Rightarrow>
              (db2\<lparr>meta_main := Some ((getMeta db2)
                          \<lparr>tokenTotal := total1,
                           messageCount := length (byCreatedAt db2),
                           oldestMessageId := id_of_first (byCreatedAt db2),
                           newestMessageId := id_of_last (byCreatedAt db2)\<rparr>)\<rparr>,
               Inr (msg, evicted))))"
    unfolding addMessage_def Let_def R_def t_def msg_def ..
  obtain db1 ev1 t1 where sel: "R = (db1, ev1, t1)"
    using prod_cases3 by blast
  have sub: "set (messages db1) \<subseteq> set (messages db)"
  proof (cases "t > ACTIVE_MEMORY")
    case True
    with sel have "evict_loop (byCreatedAt db) db [] t = (db1, ev1, t1)" by (simp add: R_def)
    from evict_loop_shape[OF this] show ?thesis by auto
  next
    case False
    with sel show ?thesis by (simp add: R_def)
  qed
  with assms have "msg_id msg \<notin> msg_id ` set (messages db1)"
    by (auto simp: msg_def)
  then have add: "db_add db1 msg = Inr (db1\<lparr>messages := messages db1 @ [msg]\<rparr>)"
    by (simp add: db_add_def)
  show ?thesis
    unfolding unf sel prod.case add sum.case by (simp add: msg_def)
qed

text \<open>
  Claim C7.  When \<^verbatim>\<open>sendMessage\<close> has stored the user turn (and archived what that evicted)
  and \<^verbatim>\<open>getRelevantContext\<close> throws, the call behaves as with context retrieval switched
  off: it makes exactly one generation call, with the recent turns of the session and no
  context, and when that call returns a reply, the reply is stored as an assistant turn of
  the session (the id of the turn being fresh); \<^verbatim>\<open>sendMessage\<close> then returns the reply,
  unless archiving what the assistant turn evicted fails afterwards.
\<close>

theorem retrieval_failure_still_replies:
  assumes "addMessage db User userContent (session_id cs) uuid1 now1 = (db1, Inr (um, uev))"
    and "uev = [] \<or> archiveMessages col uev"
    and "getRelevantContext col userContent = Inl err"
    and "uuid2 \<notin> msg_id ` set (messages db1)"
  shows "sendMessage cs col db userContent onStream uuid1 now1 uuid2 now2
           = sendMessage (cs\<lparr>useContext := False\<rparr>) col db userContent onStream
               uuid1 now1 uuid2 now2
     \<and> (\<exists>db' res.
           sendMessage cs col db userContent onStream uuid1 now1 uuid2 now2
             = (db',
                [(map (\<lambda>m. (msg_role m, content m))
                    (getRecentMessages db1 (RESPONSE_BUFFER * 4) (Some (session_id cs))),
                  None)],
                res)
         \<and> (\<forall>reply.
               (if onStream
                then streamResponse col
                       (map (\<lambda>m. (msg_role m, content m))
                          (getRecentMessages db1 (RESPONSE_BUFFER * 4) (Some (session_id cs))))
                       None
                else generateResponse col
                       (map (\<lambda>m. (msg_role m, content m))
                          (getRecentMessages db1 (RESPONSE_BUFFER * 4) (Some (session_id cs))))
                       None) = Inr reply
               \<longrightarrow> (\<exists>m \<in> set (messages db').
                      msg_role m = Assistant \<and> content m = reply
                    \<and> sessionId m = session_id cs)
                 \<and> (res = Inr reply \<or> res = Inl ArchiveFailed)))"
proof -
  let ?msgs = "map (\<lambda>m. (msg_role m, content m))
                 (getRecentMessages db1 (RESPONSE_BUFFER * 4) (Some (session_id cs)))"
  let ?gen = "(if onStream then streamResponse col ?msgs None
               else generateResponse col ?msgs None)"
  have arch: "(uev \<noteq> [] \<and> \<not> archiveMessages col uev) = False"
    using assms(2) by auto
  have ctx': "(if useContext (cs\<lparr>useContext := False\<rparr>)
              then (case getRelevantContext col userContent of Inl e \<Rightarrow> None | Inr c \<Rightarrow> c)
              else None) = None"
    by simp
  have sid: "session_id (cs\<lparr>useContext := False\<rparr>) = session_id cs"
    by simp
  have ctx: "(if useContext cs
              then (case getRelevantContext col userContent of Inl e \<Rightarrow> None | Inr c \<Rightarrow> c)
              else None) = None"
    by (simp add: assms(3))
  have eq: "sendMessage cs col db userContent onStream uuid1 now1 uuid2 now2
      = sendMessage (cs\<lparr>useContext := False\<rparr>) col db userContent onStream uuid1 now1 uuid2 now2"
    unfolding sendMessage_def Let_def ctx ctx' sid ..
  have main: "sendMessage cs col db userContent onStream uuid1 now1 uuid2 now2 =
      (case ?gen of
         Inl e \<Rightarrow> (db1, [(?msgs, None)], Inl (GenerationFailed e))
       | Inr assistantContent \<Rightarrow>
           (case addMessage db1 Assistant assistantContent (session_id cs) uuid2 now2 of
              (db2, Inl e) \<Rightarrow> (db2, [(?msgs, None)], Inl (StoreFailed e))
            | (db2, Inr (assistantMsg, assistantEvicted)) \<Rightarrow>
                if assistantEvicted \<noteq> [] \<and> \<not> archiveMessages col assistantEvicted
                then (db2, [(?msgs, None)], Inl ArchiveFailed)
                else (db2, [(?msgs, None)], Inr assistantContent)))"
    unfolding sendMessage_def Let_def ctx assms(1) prod.case sum.case arch if_False ..
  show ?thesis
  proof (cases ?gen)
    case (Inl e)
    with main eq show ?thesis by simp
  next
    case (Inr reply)
    from addMessage_fresh[OF assms(4), of Assistant reply "session_id cs" now2]
    obtain db2 m ev where
      a: "addMessage db1 Assistant reply (session_id cs) uuid2 now2 = (db2, Inr (m, ev))"
      and m: "m \<in> set (messages db2)" "msg_role m = Assistant" "content m = reply"
        "sessionId m = session_id cs"
      by blast
    define res where "res = (if ev \<noteq> [] \<and> \<not> archiveMessages col ev
        then Inl ArchiveFailed else (Inr reply :: send_error + string))"
    have s: "sendMessage cs col db userContent onStream uuid1 now1 uuid2 now2
        = (db2, [(?msgs, None)], res)"
      unfolding main Inr sum.case a prod.case res_def by simp
    have r: "res = Inr reply \<or> res = Inl ArchiveFailed"
      by (simp add: res_def)
    from s m r Inr eq show ?thesis by auto
  qed
qed


lemma add_hello:
  "addMessage empty_db User ''hello'' (session_id (new_ChatSession None None)) ''u1'' 1
     = (db_hello, Inr (msg_hello, []))"
  by (simp add: addMessage_def Let_def getMeta_def empty_db_def estimateMessageTokens_def
      estimateTokens_def ACTIVE_MEMORY_def db_add_def byCreatedAt_def id_of_first_def
      id_of_last_def msg_hello_def db_hello_def new_ChatSession_def)

lemma recent_hello:
  "map (\<lambda>m. (msg_role m, content m))
     (getRecentMessages db_hello (RESPONSE_BUFFER * 4)
        (Some (session_id (new_ChatSession None None)))) = [(User, ''hello'')]"
  by (simp add: getRecentMessages_def getMessages_def bySessionId_def db_hello_def
      msg_hello_def RESPONSE_BUFFER_def new_ChatSession_def)

theorem retrieval_failure_still_replies_witness:
  "addMessage empty_db User ''hello'' (session_id (new_ChatSession None None)) ''u1'' 1
     = (db_hello, Inr (msg_hello, []))
   \<and> getRelevantContext demo_collaborators ''hello'' = Inl ''Worker timeout''
   \<and> ''u2'' \<notin> msg_id ` set (messages db_hello)
   \<and> generateResponse demo_collaborators [(User, ''hello'')] None = Inr ''plain''
   \<and> fst (snd (sendMessage (new_ChatSession None None) demo_collaborators empty_db ''hello''
                  False ''u1'' 1 ''u2'' 2)) = [([(User, ''hello'')], None)]
   \<and> snd (snd (sendMessage (new_ChatSession None None) demo_collaborators empty_db ''hello''
                  False ''u1'' 1 ''u2'' 2)) = Inr ''plain''
   \<and> map (\<lambda>m. (msg_role m, content m, sessionId m))
         (messages (fst (sendMessage (new_ChatSession None None) demo_collaborators empty_db
                           ''hello'' False ''u1'' 1 ''u2'' 2)))
       = [(User, ''hello'', ''default''), (Assistant, ''plain'', ''default'')]"
proof -
  let ?cs = "new_ChatSession None None"
  let ?send = "sendMessage ?cs demo_collaborators empty_db ''hello'' False ''u1'' 1 ''u2'' 2"
  have h2: "[] = [] \<or> archiveMessages demo_collaborators ([] :: ConversationMessage list)"
    by simp
  have h3: "getRelevantContext demo_collaborators ''hello'' = Inl ''Worker timeout''"
    by (simp add: demo_collaborators_def)
  have h4: "''u2'' \<notin> msg_id ` set (messages db_hello)"
    by (simp add: db_hello_def msg_hello_def)
  have g: "generateResponse demo_collaborators [(User, ''hello'')] None = Inr ''plain''"
    by (simp add: demo_collaborators_def)
  from retrieval_failure_still_replies[OF add_hello h2 h3 h4, of False 2]
  obtain db' res where
    s: "?send = (db', [(map (\<lambda>m. (msg_role m, content m))
            (getRecentMessages db_hello (RESPONSE_BUFFER * 4) (Some (session_id ?cs))), None)], res)"
    and r: "\<forall>reply.
         (if False
          then streamResponse demo_collaborators
                 (map (\<lambda>m. (msg_role m, content m))
                    (getRecentMessages db_hello (RESPONSE_BUFFER * 4) (Some (session_id ?cs))))
                 None
          else generateResponse demo_collaborators
                 (map (\<lambda>m. (msg_role m, content m))
                    (getRecentMessages db_hello (RESPONSE_BUFFER * 4) (Some (session_id ?cs))))
                 None) = Inr reply
         \<longrightarrow> (\<exists>m \<in> set (messages db').
                      msg_role m = Assistant \<and> content m = reply
                    \<and> sessionId m = session_id ?cs)
                 \<and> (res = Inr reply \<or> res = Inl ArchiveFailed)"
    by blast
  have calls: "fst (snd ?send) = [([(User, ''hello'')], None)]"
    by (simp only: s recent_hello fst_conv snd_conv)
  have full: "snd (snd ?send) = Inr ''plain''
     \<and> map (\<lambda>m. (msg_role m, content m, sessionId m)) (messages (fst ?send))
       = [(User, ''hello'', ''default''), (Assistant, ''plain'', ''default'')]"
    unfolding sendMessage_def add_hello prod.case Let_def recent_hello h3 sum.case
    by (simp add: new_ChatSession_def demo_collaborators_def addMessage_def Let_def getMeta_def
        db_hello_def msg_hello_def estimateMessageTokens_def estimateTokens_def
        ACTIVE_MEMORY_def db_add_def byCreatedAt_def)
  from add_hello h3 h4 g calls full show ?thesis by simp
qed

end
